theory Spec2Isabelle
  imports Main "HOL-Library.AList"
begin

section \<open>ChronoClash session coordinator: the GameStateManager and its controller\<close>

text \<open>
  A shallow embedding of \<^verbatim>\<open>GameStateManager\<close> (the class of the repository that owns rooms,
  players and the reverse index) and of the chat handler of \<^verbatim>\<open>gameController.js\<close>.

  Conventions of the embedding.
  \<^item> A JavaScript \<^verbatim>\<open>Map\<close> is an association list in insertion order; \<^verbatim>\<open>get\<close> is
    \<^const>\<open>map_of\<close>, \<^verbatim>\<open>set\<close> is \<^const>\<open>AList.update\<close> (an existing key keeps its place, a new
    key goes last), \<^verbatim>\<open>delete\<close> is \<^const>\<open>AList.delete\<close>.
  \<^item> The objects held by the maps are mutated in place by the source. Every room object is
    stored under one key only, and so is every player object, so a mutation of an object
    that is in a map is a \<^const>\<open>AList.update\<close> at its key. The one place where the source
    keeps using a room object after it may have been deleted from the map
    (\<^verbatim>\<open>addPlayerToRoom\<close>) follows the object explicitly.
  \<^item> JavaScript numbers are \<^typ>\<open>int\<close>; identifiers and names are \<^typ>\<open>string\<close>;
    \<^verbatim>\<open>null\<close> and \<^verbatim>\<open>undefined\<close> are \<^const>\<open>None\<close>.
  \<^item> \<^verbatim>\<open>Date.now()\<close> is the parameter \<open>now\<close> of each operation.
  \<^item> A result object \<^verbatim>\<open>{ success, error, ... }\<close> is the record \<open>Result\<close>. Its fields that
    are references to live objects (\<^verbatim>\<open>room\<close>, \<^verbatim>\<open>player\<close>, \<^verbatim>\<open>actingPlayer\<close>,
    \<^verbatim>\<open>targetPlayer\<close>) are read from the returned state instead.
  \<^item> A fault thrown by the JavaScript runtime (reading a property of \<^verbatim>\<open>undefined\<close>, an
    unbound identifier) is a value of type \<open>fault\<close>; no handler of the repository catches
    one, so a fault ends the run and no state is returned with it.
\<close>

subsection \<open>Data model\<close>

datatype status = Waiting | Ready | InProgress | Completed

datatype fault = TypeError | ReferenceError

record Ability =
  id_a :: string
  name_a :: string
  manaCost :: int
  damage :: int

record Character =
  id_c :: string
  name_c :: string
  health_c :: int
  mana_c :: int
  abilities :: "Ability list"

record Player =
  id_p :: string
  name_p :: string
  isConnected :: bool
  character :: "Character option"
  isReady :: bool
  health :: int
  maxHealth :: int
  mana :: int
  maxMana :: int
  lastActive :: int

record GameData =
  turnCount :: int
  currentTurn :: "string option"
  battleLog :: "string list"
  startTime :: "int option"
  endTime :: "int option"
  winner :: "string option"

record Room =
  id_r :: string
  name_r :: string
  hostId :: string
  guestId :: "string option"
  status :: status
  isPrivate :: bool
  maxPlayers :: int
  players_r :: "string list"
  spectators :: "string list"
  gameData :: GameData
  createdAt :: int
  lastActivity :: int

record GameStateManager =
  rooms :: "(string \<times> Room) list"
  players :: "(string \<times> Player) list"
  playerToRoom :: "(string \<times> string) list"

text \<open>The argument \<^verbatim>\<open>roomData\<close> of \<^verbatim>\<open>createRoom\<close> and the argument \<^verbatim>\<open>action\<close> of
  \<^verbatim>\<open>processGameAction\<close>.\<close>

record RoomData =
  roomId_d :: "string option"
  name_d :: "string option"
  isPrivate_d :: "bool option"

record Action =
  type_act :: string
  abilityId :: "string option"

record Result =
  success :: bool
  error :: "string option"
  roomClosed :: bool
  noRoomFound :: bool
  allReady :: "bool option"
  ability_res :: "Ability option"
  damage_res :: "int option"
  surrender :: bool
  gameOver :: bool
  winner_res :: "string option"

definition ok :: Result where
  "ok = \<lparr> success = True, error = None, roomClosed = False, noRoomFound = False,
          allReady = None, ability_res = None, damage_res = None, surrender = False,
          gameOver = False, winner_res = None \<rparr>"

definition failure :: "string \<Rightarrow> Result" where
  "failure e = ok \<lparr> success := False, error := Some e \<rparr>"

text \<open>The constructor: three empty maps.\<close>

definition constructor :: GameStateManager where
  "constructor = \<lparr> rooms = [], players = [], playerToRoom = [] \<rparr>"

text \<open>JavaScript truthiness of an optional string: \<^verbatim>\<open>undefined\<close> and the empty string are
  falsy.\<close>

fun truthy :: "string option \<Rightarrow> bool" where
  "truthy None = False"
| "truthy (Some v) = (v \<noteq> [])"

text \<open>Decimal rendering of a number inside a template literal.\<close>

function showNat :: "nat \<Rightarrow> string" where
  "showNat n = (if n < 10 then [char_of (48 + n)]
                else showNat (n div 10) @ [char_of (48 + n mod 10)])"
  by pat_completeness auto
termination
  by (relation "measure id") auto

declare showNat.simps [simp del]

definition showInt :: "int \<Rightarrow> string" where
  "showInt i = (if i < 0 then CHR ''-'' # showNat (nat (- i)) else showNat (nat i))"

subsection \<open>Player registry\<close>

definition registerPlayer ::
  "string \<Rightarrow> string option \<Rightarrow> int \<Rightarrow> GameStateManager \<Rightarrow> Player \<times> GameStateManager" where
  "registerPlayer socketId name now s =
     (let player = \<lparr> id_p = socketId,
                      name_p = (case name of
                                  Some n \<Rightarrow> if n \<noteq> [] then n else ''Player_'' @ take 5 socketId
                                | None \<Rightarrow> ''Player_'' @ take 5 socketId),
                      isConnected = True, character = None, isReady = False,
                      health = 0, maxHealth = 0, mana = 0, maxMana = 0, lastActive = now \<rparr>
      in (player, s \<lparr> players := AList.update socketId player (players s) \<rparr>))"

definition getPlayer :: "GameStateManager \<Rightarrow> string \<Rightarrow> Player option" where
  "getPlayer s socketId = map_of (players s) socketId"

definition getRoom :: "GameStateManager \<Rightarrow> string \<Rightarrow> Room option" where
  "getRoom s roomId = map_of (rooms s) roomId"

text \<open>\<^verbatim>\<open>updatePlayer\<close>: \<^verbatim>\<open>Object.assign(player, updates)\<close> is the function \<open>updates\<close>.\<close>

definition updatePlayer ::
  "string \<Rightarrow> (Player \<Rightarrow> Player) \<Rightarrow> int \<Rightarrow> GameStateManager \<Rightarrow> Player option \<times> GameStateManager" where
  "updatePlayer socketId updates now s =
     (case map_of (players s) socketId of
        None \<Rightarrow> (None, s)
      | Some player \<Rightarrow>
          (let player' = (updates player) \<lparr> lastActive := now \<rparr>
           in (Some player', s \<lparr> players := AList.update socketId player' (players s) \<rparr>)))"

subsection \<open>Room registry\<close>

text \<open>
  What \<^verbatim>\<open>removePlayerFromRoom\<close> does to the room object it found. \<open>depart\<close> is the
  object after the call, with whether the call deleted it from the map
  (\<^verbatim>\<open>roomClosed\<close>: the source returns right after filtering the roster); \<open>settle\<close> is the
  part after the host check (clearing the guest, the forfeit, the activity timestamp).
\<close>

definition settle :: "string \<Rightarrow> int \<Rightarrow> Room \<Rightarrow> Room" where
  "settle socketId now room =
     (let room3 = (if Some socketId = guestId room then room \<lparr> guestId := None \<rparr> else room);
          room4 = (if status room3 = InProgress
                   then room3 \<lparr> status := Completed,
                                gameData := (gameData room3)
                                  \<lparr> endTime := Some now,
                                    winner := (case players_r room3 of
                                                 [] \<Rightarrow> None
                                               | w # _ \<Rightarrow> Some w) \<rparr> \<rparr>
                   else room3)
      in room4 \<lparr> lastActivity := now \<rparr>)"

definition depart :: "string \<Rightarrow> int \<Rightarrow> Room \<Rightarrow> Room \<times> bool" where
  "depart socketId now room =
     (let room1 = room \<lparr> players_r := filter (\<lambda>i. i \<noteq> socketId) (players_r room) \<rparr>
      in if socketId = hostId room1
         then (case players_r room1 of
                 h # _ \<Rightarrow>
                   (settle socketId now
                      (room1 \<lparr> hostId := h,
                               guestId := (if guestId room1 = Some h then None
                                           else guestId room1) \<rparr>),
                    False)
               | [] \<Rightarrow> (room1, True))
         else (settle socketId now room1, False))"

definition removePlayerFromRoom ::
  "string \<Rightarrow> string \<Rightarrow> int \<Rightarrow> GameStateManager \<Rightarrow> Result \<times> GameStateManager" where
  "removePlayerFromRoom socketId roomId now s =
     (case map_of (rooms s) roomId of
        None \<Rightarrow> (failure ''Room not found'', s)
      | Some room \<Rightarrow>
          (let (room', closed) = depart socketId now room;
               index = AList.delete socketId (playerToRoom s)
           in if closed
              then (ok \<lparr> roomClosed := True \<rparr>,
                    s \<lparr> rooms := AList.delete roomId (rooms s), playerToRoom := index \<rparr>)
              else (ok,
                    s \<lparr> rooms := AList.update roomId room' (rooms s), playerToRoom := index \<rparr>)))"

definition leaveAllRooms ::
  "string \<Rightarrow> int \<Rightarrow> GameStateManager \<Rightarrow> Result \<times> GameStateManager" where
  "leaveAllRooms socketId now s =
     (case map_of (playerToRoom s) socketId of
        Some roomId \<Rightarrow> removePlayerFromRoom socketId roomId now s
      | None \<Rightarrow> (ok \<lparr> noRoomFound := True \<rparr>, s))"

definition unregisterPlayer :: "string \<Rightarrow> int \<Rightarrow> GameStateManager \<Rightarrow> GameStateManager" where
  "unregisterPlayer socketId now s =
     (let s1 = (case map_of (playerToRoom s) socketId of
                  Some roomId \<Rightarrow> snd (removePlayerFromRoom socketId roomId now s)
                | None \<Rightarrow> s)
      in s1 \<lparr> players := AList.delete socketId (players s1),
              playerToRoom := AList.delete socketId (playerToRoom s1) \<rparr>)"

text \<open>
  \<^verbatim>\<open>generateRoomCode\<close>. The random source is the list \<open>rnd\<close> of the values
  \<^verbatim>\<open>Math.floor(Math.random() * chars.length)\<close> takes, six per attempt. The loop repeats while
  the code is in use; when the list runs out the loop has not returned (\<^const>\<open>None\<close>).
\<close>

definition chars :: string where
  "chars = ''ABCDEFGHJKLMNPQRSTUVWXYZ23456789''"

definition charAt :: "string \<Rightarrow> nat \<Rightarrow> string" where
  "charAt str i = (if i < length str then [str ! i] else [])"

function generateRoomCode :: "nat list \<Rightarrow> (string \<times> Room) list \<Rightarrow> string option" where
  "generateRoomCode rnd rs =
     (if length rnd < 6 then None
      else (let code = concat (map (charAt chars) (take 6 rnd))
            in if map_of rs code \<noteq> None then generateRoomCode (drop 6 rnd) rs
               else Some code))"
  by pat_completeness auto
termination
  by (relation "measure (\<lambda>(rnd, rs). length rnd)") auto

declare generateRoomCode.simps [simp del]

text \<open>\<^verbatim>\<open>createRoom\<close> returns the room or \<^verbatim>\<open>null\<close>; the outer \<^const>\<open>None\<close> is a code
  generator that has not returned.\<close>

definition createRoom ::
  "string \<Rightarrow> RoomData \<Rightarrow> nat list \<Rightarrow> int \<Rightarrow> GameStateManager
     \<Rightarrow> (Room option \<times> GameStateManager) option" where
  "createRoom hostId' roomData rnd now s =
     (case (if truthy (roomId_d roomData) then roomId_d roomData
            else generateRoomCode rnd (rooms s)) of
        None \<Rightarrow> None
      | Some roomId \<Rightarrow>
          (let s1 = snd (leaveAllRooms hostId' now s)
           in case map_of (players s1) hostId' of
                None \<Rightarrow> Some (None, s1)
              | Some host \<Rightarrow>
                  (let room = \<lparr> id_r = roomId,
                                name_r = (case name_d roomData of
                                            Some n \<Rightarrow>
                                              if n \<noteq> [] then n
                                              else name_p host @ [CHR 0x27] @ ''s Room''
                                          | None \<Rightarrow> name_p host @ [CHR 0x27] @ ''s Room''),
                                hostId = hostId',
                                guestId = None,
                                status = Waiting,
                                isPrivate = (case isPrivate_d roomData of
                                               Some b \<Rightarrow> b | None \<Rightarrow> False),
                                maxPlayers = 2,
                                players_r = [hostId'],
                                spectators = [],
                                gameData = \<lparr> turnCount = 0, currentTurn = None,
                                             battleLog = [], startTime = None,
                                             endTime = None, winner = None \<rparr>,
                                createdAt = now,
                                lastActivity = now \<rparr>
                   in Some (Some room,
                            s1 \<lparr> rooms := AList.update roomId room (rooms s1),
                                 playerToRoom :=
                                   AList.update hostId' roomId (playerToRoom s1) \<rparr>))))"

text \<open>
  \<^verbatim>\<open>addPlayerToRoom\<close>. After the four checks the source calls \<^verbatim>\<open>leaveAllRooms\<close> and then
  goes on with the object \<^verbatim>\<open>room\<close> it fetched before. When the reverse index sent the
  player to this very room, \<^verbatim>\<open>leaveAllRooms\<close> has changed that object (\<^const>\<open>depart\<close>) and
  may have deleted it from the map; the push and the guest assignment then act on an
  object the map no longer holds, and only the reverse index records the join.
\<close>

definition addPlayerToRoom ::
  "string \<Rightarrow> string \<Rightarrow> int \<Rightarrow> GameStateManager \<Rightarrow> Result \<times> GameStateManager" where
  "addPlayerToRoom socketId roomId now s =
     (case map_of (rooms s) roomId of
        None \<Rightarrow> (failure ''Room not found'', s)
      | Some room \<Rightarrow>
          (case map_of (players s) socketId of
             None \<Rightarrow> (failure ''Player not found'', s)
           | Some player \<Rightarrow>
               if int (length (players_r room)) \<ge> maxPlayers room
               then (failure ''Room is full'', s)
               else if status room \<noteq> Waiting
               then (failure ''Room is not accepting new players'', s)
               else
                 (let s1 = snd (leaveAllRooms socketId now s);
                      (room1, detached) =
                         (if map_of (playerToRoom s) socketId = Some roomId
                          then depart socketId now room
                          else (room, False));
                      room2 = room1 \<lparr> players_r := players_r room1 @ [socketId] \<rparr>;
                      room3 = (if length (players_r room2) = 2
                               then room2 \<lparr> guestId := Some socketId \<rparr> else room2);
                      room4 = room3 \<lparr> lastActivity := now \<rparr>
                  in (ok,
                      s1 \<lparr> rooms := (if detached then rooms s1
                                      else AList.update roomId room4 (rooms s1)),
                           playerToRoom :=
                             AList.update socketId roomId (playerToRoom s1) \<rparr>))))"

subsection \<open>Match engine\<close>

definition setPlayerCharacter ::
  "string \<Rightarrow> Character \<Rightarrow> int \<Rightarrow> GameStateManager \<Rightarrow> Result \<times> GameStateManager" where
  "setPlayerCharacter socketId c now s =
     (case updatePlayer socketId
             (\<lambda>p. p \<lparr> character := Some c, health := health_c c, maxHealth := health_c c,
                        mana := mana_c c, maxMana := mana_c c, isReady := False \<rparr>) now s of
        (None, s1) \<Rightarrow> (failure ''Player not found'', s1)
      | (Some player, s1) \<Rightarrow>
          (case map_of (playerToRoom s1) socketId of
             None \<Rightarrow> (failure ''Player not in a room'', s1)
           | Some roomId \<Rightarrow>
               if roomId = [] then (failure ''Player not in a room'', s1)
               else
                 (case map_of (rooms s1) roomId of
                    None \<Rightarrow> (failure ''Room not found'', s1)
                  | Some room \<Rightarrow>
                      (ok, s1 \<lparr> rooms := AList.update roomId
                                            (room \<lparr> lastActivity := now \<rparr>) (rooms s1) \<rparr>))))"

text \<open>\<^verbatim>\<open>room.players.every(id => this.players.get(id).isReady)\<close>: left to right, stopping at
  the first occupant that is not ready; an occupant with no player record is a fault.\<close>

fun everyReady :: "(string \<times> Player) list \<Rightarrow> string list \<Rightarrow> fault + bool" where
  "everyReady ps [] = Inr True"
| "everyReady ps (i # is) =
     (case map_of ps i of
        None \<Rightarrow> Inl TypeError
      | Some p \<Rightarrow> if isReady p then everyReady ps is else Inr False)"

definition setPlayerReady ::
  "string \<Rightarrow> bool \<Rightarrow> int \<Rightarrow> GameStateManager \<Rightarrow> fault + (Result \<times> GameStateManager)" where
  "setPlayerReady socketId ready now s =
     (case updatePlayer socketId (\<lambda>p. p \<lparr> isReady := ready \<rparr>) now s of
        (None, s1) \<Rightarrow> Inr (failure ''Player not found'', s1)
      | (Some player, s1) \<Rightarrow>
          (case map_of (playerToRoom s1) socketId of
             None \<Rightarrow> Inr (failure ''Player not in a room'', s1)
           | Some roomId \<Rightarrow>
               if roomId = [] then Inr (failure ''Player not in a room'', s1)
               else
                 (case map_of (rooms s1) roomId of
                    None \<Rightarrow> Inr (failure ''Room not found'', s1)
                  | Some room \<Rightarrow>
                      (case (if length (players_r room) = 2
                             then everyReady (players s1) (players_r room)
                             else Inr False) of
                         Inl f \<Rightarrow> Inl f
                       | Inr allReady' \<Rightarrow>
                           (let room1 = (if allReady' \<and> status room = Waiting
                                         then room \<lparr> status := Ready \<rparr> else room)
                            in Inr (ok \<lparr> allReady := Some allReady' \<rparr>,
                                    s1 \<lparr> rooms := AList.update roomId
                                                     (room1 \<lparr> lastActivity := now \<rparr>)
                                                     (rooms s1) \<rparr>))))))"

text \<open>\<^verbatim>\<open>startGame\<close>: the name of the host is read for the battle log; a host with no
  player record is a fault.\<close>

definition startGame ::
  "string \<Rightarrow> int \<Rightarrow> GameStateManager \<Rightarrow> fault + (Result \<times> GameStateManager)" where
  "startGame roomId now s =
     (case map_of (rooms s) roomId of
        None \<Rightarrow> Inr (failure ''Room not found'', s)
      | Some room \<Rightarrow>
          if status room \<noteq> Ready then Inr (failure ''Not all players are ready'', s)
          else if length (players_r room) \<noteq> 2
          then Inr (failure ''Need exactly 2 players to start'', s)
          else
            (case map_of (players s) (hostId room) of
               None \<Rightarrow> Inl TypeError
             | Some host \<Rightarrow>
                 Inr (ok,
                      s \<lparr> rooms := AList.update roomId
                             (room \<lparr> status := InProgress,
                                     gameData :=
                                       \<lparr> turnCount = 1,
                                         currentTurn = Some (hostId room),
                                         battleLog = [''Battle started!'',
                                                      name_p host @ '' goes first!''],
                                         startTime = Some now,
                                         endTime = None,
                                         winner = None \<rparr>,
                                     lastActivity := now \<rparr>)
                             (rooms s) \<rparr>)))"

text \<open>Mutation of the player object stored under a key, and of the room object stored
  under a room code.\<close>

definition modifyPlayer ::
  "string \<Rightarrow> (Player \<Rightarrow> Player) \<Rightarrow> GameStateManager \<Rightarrow> GameStateManager" where
  "modifyPlayer k f s =
     (case map_of (players s) k of
        None \<Rightarrow> s
      | Some p \<Rightarrow> s \<lparr> players := AList.update k (f p) (players s) \<rparr>)"

definition modifyRoom ::
  "string \<Rightarrow> (Room \<Rightarrow> Room) \<Rightarrow> GameStateManager \<Rightarrow> GameStateManager" where
  "modifyRoom k f s =
     (case map_of (rooms s) k of
        None \<Rightarrow> s
      | Some r \<Rightarrow> s \<lparr> rooms := AList.update k (f r) (rooms s) \<rparr>)"

definition pushLog :: "string list \<Rightarrow> Room \<Rightarrow> Room" where
  "pushLog ls room =
     room \<lparr> gameData := (gameData room) \<lparr> battleLog := battleLog (gameData room) @ ls \<rparr> \<rparr>"

text \<open>
  \<^verbatim>\<open>processAbilityUse\<close> and \<^verbatim>\<open>processSurrender\<close> receive the two player objects and the
  room object; here each object comes with the key it is stored under (\<open>actingId\<close>,
  \<open>targetId\<close>, \<open>roomId\<close>), and \<open>actingPlayer\<close>, \<open>targetPlayer\<close> are the objects as the
  caller read them.
\<close>

definition processAbilityUse ::
  "string \<Rightarrow> Player \<Rightarrow> string \<Rightarrow> Player \<Rightarrow> Action \<Rightarrow> string \<Rightarrow> GameStateManager
     \<Rightarrow> Result \<times> GameStateManager" where
  "processAbilityUse actingId actingPlayer targetId targetPlayer action roomId s =
     (case (case character actingPlayer of
              None \<Rightarrow> None
            | Some c \<Rightarrow> find (\<lambda>a. Some (id_a a) = abilityId action) (abilities c)) of
        None \<Rightarrow> (failure ''Ability not found'', s)
      | Some ability \<Rightarrow>
          if mana actingPlayer < manaCost ability then (failure ''Not enough mana'', s)
          else
            (let s1 = modifyPlayer actingId
                        (\<lambda>p. p \<lparr> mana := max 0 (mana p - manaCost ability) \<rparr>) s;
                 damage' = damage ability;
                 s2 = modifyPlayer targetId
                        (\<lambda>p. p \<lparr> health := max 0 (health p - damage') \<rparr>) s1;
                 s3 = modifyRoom roomId
                        (pushLog [name_p actingPlayer @ '' used '' @ name_a ability @ ''!'',
                                  name_p targetPlayer @ '' took '' @ showInt damage'
                                    @ '' damage!'']) s2
             in (ok \<lparr> ability_res := Some ability, damage_res := Some damage' \<rparr>, s3)))"

definition processSurrender ::
  "string \<Rightarrow> Player \<Rightarrow> string \<Rightarrow> GameStateManager \<Rightarrow> Result \<times> GameStateManager" where
  "processSurrender actingId actingPlayer roomId s =
     (let s1 = modifyPlayer actingId (\<lambda>p. p \<lparr> health := 0 \<rparr>) s;
          s2 = modifyRoom roomId (pushLog [name_p actingPlayer @ '' surrendered!'']) s1
      in (ok \<lparr> surrender := True \<rparr>, s2))"

text \<open>
  The part of \<^verbatim>\<open>processGameAction\<close> after the dispatch: the game-over check, else the
  turn change, then the activity timestamp. \<open>result\<close> is what the dispatch returned; the
  source returns \<^verbatim>\<open>{ success: true, ...result, room }\<close>, where the spread of \<open>result\<close>
  comes after \<^verbatim>\<open>success: true\<close> and \<open>result\<close> always has its own \<^verbatim>\<open>success\<close> (and
  \<^verbatim>\<open>error\<close>, when it is a failure), so the returned object has the dispatch's flag.
  The two player objects and the room object are read again from the maps; they are
  there, since the dispatch deletes nothing (the \<^const>\<open>TypeError\<close> of the last case is
  what reading a field of a missing object would be).
\<close>

definition finishAction ::
  "string \<Rightarrow> string \<Rightarrow> string \<Rightarrow> int \<Rightarrow> Result \<Rightarrow> GameStateManager
     \<Rightarrow> fault + (Result \<times> GameStateManager)" where
  "finishAction actingId targetId roomId now result s =
     (case (map_of (players s) actingId, map_of (players s) targetId, map_of (rooms s) roomId) of
        (Some actingPlayer, Some targetPlayer, Some room) \<Rightarrow>
          if health actingPlayer \<le> 0 \<or> health targetPlayer \<le> 0
          then
            (let winner' = (if health actingPlayer \<le> 0 then id_p targetPlayer
                            else id_p actingPlayer)
             in case map_of (players s) winner' of
                  None \<Rightarrow> Inl TypeError
                | Some w \<Rightarrow>
                    Inr (result \<lparr> gameOver := True, winner_res := Some winner' \<rparr>,
                         s \<lparr> rooms := AList.update roomId
                                (room \<lparr> status := Completed,
                                        gameData := (gameData room)
                                          \<lparr> endTime := Some now,
                                            winner := Some winner',
                                            battleLog := battleLog (gameData room)
                                              @ [name_p w @ '' wins the battle!''] \<rparr>,
                                        lastActivity := now \<rparr>)
                                (rooms s) \<rparr>))
          else
            (let next = (if currentTurn (gameData room) = Some (hostId room)
                         then guestId room else Some (hostId room))
             in case (case next of None \<Rightarrow> None | Some k \<Rightarrow> map_of (players s) k) of
                  None \<Rightarrow> Inl TypeError
                | Some n \<Rightarrow>
                    Inr (result,
                         s \<lparr> rooms := AList.update roomId
                                (room \<lparr> gameData := (gameData room)
                                          \<lparr> currentTurn := next,
                                            turnCount := turnCount (gameData room) + 1,
                                            battleLog := battleLog (gameData room)
                                              @ [name_p n @ [CHR 0x27] @ ''s turn!''] \<rparr>,
                                        lastActivity := now \<rparr>)
                                (rooms s) \<rparr>))
      | _ \<Rightarrow> Inl TypeError)"

definition processGameAction ::
  "string \<Rightarrow> Action \<Rightarrow> int \<Rightarrow> GameStateManager \<Rightarrow> fault + (Result \<times> GameStateManager)" where
  "processGameAction socketId action now s =
     (case map_of (playerToRoom s) socketId of
        None \<Rightarrow> Inr (failure ''Player not in a room'', s)
      | Some roomId \<Rightarrow>
          if roomId = [] then Inr (failure ''Player not in a room'', s)
          else
            (case map_of (rooms s) roomId of
               None \<Rightarrow> Inr (failure ''Room not found'', s)
             | Some room \<Rightarrow>
                 if status room \<noteq> InProgress then Inr (failure ''Game is not in progress'', s)
                 else if currentTurn (gameData room) \<noteq> Some socketId
                 then Inr (failure ''Not your turn'', s)
                 else
                   (case (map_of (players s) socketId,
                          (case (if socketId = hostId room then guestId room
                                 else Some (hostId room)) of
                             None \<Rightarrow> None
                           | Some k \<Rightarrow> map_option (Pair k) (map_of (players s) k))) of
                      (Some actingPlayer, Some (targetId, targetPlayer)) \<Rightarrow>
                        if type_act action = ''ability''
                        then (case processAbilityUse socketId actingPlayer targetId targetPlayer
                                     action roomId s of
                                (result, s1) \<Rightarrow>
                                  finishAction socketId targetId roomId now result s1)
                        else if type_act action = ''surrender''
                        then (case processSurrender socketId actingPlayer roomId s of
                                (result, s1) \<Rightarrow>
                                  finishAction socketId targetId roomId now result s1)
                        else Inr (failure ''Unknown action type'', s)
                    | _ \<Rightarrow> Inr (failure ''Player data missing'', s))))"

subsection \<open>Reaper\<close>

text \<open>The two \<^verbatim>\<open>forEach\<close> loops of \<^verbatim>\<open>cleanupInactive\<close>, over the entries of the map as they
  were when the loop began (a callback deletes no entry but its own).\<close>

fun sweepRooms :: "int \<Rightarrow> int \<Rightarrow> (string \<times> Room) list \<Rightarrow> GameStateManager \<Rightarrow> GameStateManager" where
  "sweepRooms now roomTimeout [] s = s"
| "sweepRooms now roomTimeout ((roomId, room) # es) s =
     sweepRooms now roomTimeout es
       (if now - lastActivity room > roomTimeout
        then s \<lparr> playerToRoom := fold AList.delete (players_r room) (playerToRoom s),
                 rooms := AList.delete roomId (rooms s) \<rparr>
        else s)"

fun sweepPlayers :: "int \<Rightarrow> int \<Rightarrow> (string \<times> Player) list \<Rightarrow> GameStateManager \<Rightarrow> GameStateManager" where
  "sweepPlayers now playerTimeout [] s = s"
| "sweepPlayers now playerTimeout ((playerId, player) # es) s =
     sweepPlayers now playerTimeout es
       (if now - lastActive player > playerTimeout \<and> map_of (playerToRoom s) playerId = None
        then s \<lparr> players := AList.delete playerId (players s) \<rparr>
        else s)"

definition cleanupInactive :: "int \<Rightarrow> int \<Rightarrow> int \<Rightarrow> GameStateManager \<Rightarrow> GameStateManager" where
  "cleanupInactive roomTimeout playerTimeout now s =
     (let s1 = sweepRooms now roomTimeout (rooms s) s
      in sweepPlayers now playerTimeout (players s1) s1)"

text \<open>The default timeouts of \<^verbatim>\<open>cleanupInactive\<close>, in milliseconds.\<close>

definition defaultRoomTimeout :: int where
  "defaultRoomTimeout = 30 * 60 * 1000"

definition defaultPlayerTimeout :: int where
  "defaultPlayerTimeout = 60 * 60 * 1000"

subsection \<open>Sequences of operations\<close>

datatype op =
    RegisterPlayer string "string option"
  | UnregisterPlayer string
  | CreateRoom string RoomData "nat list"
  | AddPlayerToRoom string string
  | RemovePlayerFromRoom string string
  | LeaveAllRooms string
  | SetPlayerCharacter string Character
  | SetPlayerReady string bool
  | StartGame string
  | ProcessGameAction string Action
  | CleanupInactive int int

text \<open>One call at time \<open>now\<close>; \<^const>\<open>None\<close> when the call faults or does not return.\<close>

fun exec :: "int \<Rightarrow> op \<Rightarrow> GameStateManager \<Rightarrow> GameStateManager option" where
  "exec now (RegisterPlayer p n) s = Some (snd (registerPlayer p n now s))"
| "exec now (UnregisterPlayer p) s = Some (unregisterPlayer p now s)"
| "exec now (CreateRoom h rd rnd) s = map_option snd (createRoom h rd rnd now s)"
| "exec now (AddPlayerToRoom p r) s = Some (snd (addPlayerToRoom p r now s))"
| "exec now (RemovePlayerFromRoom p r) s = Some (snd (removePlayerFromRoom p r now s))"
| "exec now (LeaveAllRooms p) s = Some (snd (leaveAllRooms p now s))"
| "exec now (SetPlayerCharacter p c) s = Some (snd (setPlayerCharacter p c now s))"
| "exec now (SetPlayerReady p b) s =
     (case setPlayerReady p b now s of Inl f \<Rightarrow> None | Inr (r, s') \<Rightarrow> Some s')"
| "exec now (StartGame r) s =
     (case startGame r now s of Inl f \<Rightarrow> None | Inr (res, s') \<Rightarrow> Some s')"
| "exec now (ProcessGameAction p a) s =
     (case processGameAction p a now s of Inl f \<Rightarrow> None | Inr (res, s') \<Rightarrow> Some s')"
| "exec now (CleanupInactive rt pt) s = Some (cleanupInactive rt pt now s)"

fun run :: "(int \<times> op) list \<Rightarrow> GameStateManager \<Rightarrow> GameStateManager option" where
  "run [] s = Some s"
| "run ((now, c) # cs) s = (case exec now c s of None \<Rightarrow> None | Some s' \<Rightarrow> run cs s')"

subsection \<open>Predicates on rooms and states\<close>

text \<open>
  \<open>wellSeated\<close>: the roster holds one or two entries, the host is its first entry and the
  guest, set exactly when there are two, is its second; the capacity is 2.
  \<open>evolves\<close> relates a room object before and after an operation that leaves the seating
  alone and does not reopen a completed match.
\<close>

definition wellSeated :: "Room \<Rightarrow> bool" where
  "wellSeated room \<longleftrightarrow>
     maxPlayers room = 2 \<and>
     (case players_r room of
        [h] \<Rightarrow> hostId room = h \<and> guestId room = None
      | [h, g] \<Rightarrow> hostId room = h \<and> guestId room = Some g
      | _ \<Rightarrow> False)"

definition roomsOk :: "GameStateManager \<Rightarrow> bool" where
  "roomsOk s \<longleftrightarrow> (\<forall>k room. map_of (rooms s) k = Some room \<longrightarrow> wellSeated room)"

definition evolves :: "Room \<Rightarrow> Room \<Rightarrow> bool" where
  "evolves room room' \<longleftrightarrow>
     players_r room' = players_r room \<and> hostId room' = hostId room \<and>
     guestId room' = guestId room \<and> maxPlayers room' = maxPlayers room \<and>
     (status room = Completed \<longrightarrow> status room' = Completed)"

definition roomsEvolve :: "GameStateManager \<Rightarrow> GameStateManager \<Rightarrow> bool" where
  "roomsEvolve s s' \<longleftrightarrow>
     (\<forall>k room'. map_of (rooms s') k = Some room' \<longrightarrow>
        (\<exists>room. map_of (rooms s) k = Some room \<and> evolves room room'))"

text \<open>
  \<open>keysOk\<close>: no map holds a key twice. \<open>matchOk\<close>: a room in progress has two roster
  entries and a turn counter of at least 1, and the turn is the host's on odd counts and
  the guest's on even counts. \<open>advances\<close> relates a room before and after an operation of
  the match engine: the seating is kept, and either status, turn counter and turn owner
  are kept, or the room goes from waiting to ready, or from ready (with two occupants)
  to in progress with the turn at the host and counter 1, or from in progress to
  completed, or the match goes on with the counter one higher and the turn at the other
  of host and guest.
\<close>

definition keysOk :: "GameStateManager \<Rightarrow> bool" where
  "keysOk s \<longleftrightarrow> distinct (map fst (rooms s)) \<and> distinct (map fst (players s)) \<and>
                distinct (map fst (playerToRoom s))"

definition matchOk :: "Room \<Rightarrow> bool" where
  "matchOk room \<longleftrightarrow>
     (status room = InProgress \<longrightarrow>
        length (players_r room) = 2 \<and> 1 \<le> turnCount (gameData room) \<and>
        currentTurn (gameData room) =
          (if odd (turnCount (gameData room)) then Some (hostId room) else guestId room))"

definition matchesOk :: "GameStateManager \<Rightarrow> bool" where
  "matchesOk s \<longleftrightarrow> (\<forall>k room. map_of (rooms s) k = Some room \<longrightarrow> matchOk room)"

definition advances :: "Room \<Rightarrow> Room \<Rightarrow> bool" where
  "advances room room' \<longleftrightarrow>
     players_r room' = players_r room \<and> hostId room' = hostId room \<and>
     guestId room' = guestId room \<and>
     (status room' = status room \<and>
        turnCount (gameData room') = turnCount (gameData room) \<and>
        currentTurn (gameData room') = currentTurn (gameData room) \<or>
      status room = Waiting \<and> status room' = Ready \<or>
      status room = Ready \<and> length (players_r room) = 2 \<and> status room' = InProgress \<and>
        turnCount (gameData room') = 1 \<and>
        currentTurn (gameData room') = Some (hostId room) \<or>
      status room = InProgress \<and> status room' = Completed \<or>
      status room = InProgress \<and> status room' = InProgress \<and>
        turnCount (gameData room') = turnCount (gameData room) + 1 \<and>
        currentTurn (gameData room') =
          (if currentTurn (gameData room) = Some (hostId room) then guestId room
           else Some (hostId room)))"

definition roomsAdvance :: "GameStateManager \<Rightarrow> GameStateManager \<Rightarrow> bool" where
  "roomsAdvance s s' \<longleftrightarrow>
     (\<forall>k room'. map_of (rooms s') k = Some room' \<longrightarrow>
        (\<exists>room. map_of (rooms s) k = Some room \<and> advances room room'))"

text \<open>
  \<open>seatsIndexed\<close>: the reverse index maps every roster entry of every room to that room.
  \<open>rostersDistinct\<close>: no roster holds a player twice. \<open>unseated p\<close>: no roster holds \<open>p\<close>.
  \<open>admissible\<close> is the guard of the controller's leave handler on a call of
  \<^verbatim>\<open>removePlayerFromRoom\<close> (the room is the one the reverse index names for the player);
  \<open>guarded cs s\<close> says that every operation of the sequence is admissible in the state in
  which it is called.
\<close>

definition seatsIndexed :: "GameStateManager \<Rightarrow> bool" where
  "seatsIndexed s \<longleftrightarrow>
     (\<forall>r room p. map_of (rooms s) r = Some room \<longrightarrow> p \<in> set (players_r room) \<longrightarrow>
        map_of (playerToRoom s) p = Some r)"

definition admissible :: "GameStateManager \<Rightarrow> op \<Rightarrow> bool" where
  "admissible s c =
     (case c of
        RemovePlayerFromRoom p r \<Rightarrow> map_of (playerToRoom s) p = Some r
      | _ \<Rightarrow> True)"

fun guarded :: "(int \<times> op) list \<Rightarrow> GameStateManager \<Rightarrow> bool" where
  "guarded [] s = True"
| "guarded ((now, c) # cs) s =
     (admissible s c \<and> (case exec now c s of None \<Rightarrow> True | Some s' \<Rightarrow> guarded cs s'))"

definition rostersDistinct :: "GameStateManager \<Rightarrow> bool" where
  "rostersDistinct s \<longleftrightarrow>
     (\<forall>r room. map_of (rooms s) r = Some room \<longrightarrow> distinct (players_r room))"

definition unseated :: "string \<Rightarrow> GameStateManager \<Rightarrow> bool" where
  "unseated p s \<longleftrightarrow> (\<forall>r room. map_of (rooms s) r = Some room \<longrightarrow> p \<notin> set (players_r room))"

subsection \<open>Sample data and observations for the concrete runs\<close>

definition bolt :: Ability where
  "bolt = \<lparr> id_a = ''bolt'', name_a = ''Bolt'', manaCost = 10, damage = 20 \<rparr>"

definition mage :: Character where
  "mage = \<lparr> id_c = ''mage'', name_c = ''Mage'', health_c = 100, mana_c = 10,
             abilities = [bolt] \<rparr>"

definition noRoomData :: RoomData where
  "noRoomData = \<lparr> roomId_d = None, name_d = None, isPrivate_d = None \<rparr>"

text \<open>Two players connect, the first creates a room (the generator draws six times index
  0, the code \<open>AAAAAA\<close>) and the second joins it.\<close>

definition opsLobby :: "(int \<times> op) list" where
  "opsLobby =
     [(0, RegisterPlayer ''h'' (Some ''Hana'')),
      (0, RegisterPlayer ''g'' None),
      (1, CreateRoom ''h'' noRoomData [0, 0, 0, 0, 0, 0]),
      (2, AddPlayerToRoom ''g'' ''AAAAAA'')]"

text \<open>Both pick the mage and both are ready; then the game starts; then the host casts
  the bolt.\<close>

definition opsReady :: "(int \<times> op) list" where
  "opsReady =
     opsLobby @
     [(3, SetPlayerCharacter ''h'' mage),
      (4, SetPlayerCharacter ''g'' mage),
      (5, SetPlayerReady ''h'' True),
      (6, SetPlayerReady ''g'' True)]"

definition opsStarted :: "(int \<times> op) list" where
  "opsStarted = opsReady @ [(7, StartGame ''AAAAAA'')]"

definition castBolt :: Action where
  "castBolt = \<lparr> type_act = ''ability'', abilityId = Some ''bolt'' \<rparr>"

definition opsFirstMove :: "(int \<times> op) list" where
  "opsFirstMove = opsStarted @ [(8, ProcessGameAction ''h'' castBolt)]"

text \<open>What a run from the empty manager leaves under a room code, a player id, and in the
  reverse index.\<close>

definition roomAfter :: "(int \<times> op) list \<Rightarrow> string \<Rightarrow> Room option" where
  "roomAfter cs r = (case run cs constructor of None \<Rightarrow> None | Some s \<Rightarrow> map_of (rooms s) r)"

definition playerAfter :: "(int \<times> op) list \<Rightarrow> string \<Rightarrow> Player option" where
  "playerAfter cs p = (case run cs constructor of None \<Rightarrow> None | Some s \<Rightarrow> map_of (players s) p)"

definition indexAfter :: "(int \<times> op) list \<Rightarrow> string \<Rightarrow> string option" where
  "indexAfter cs p =
     (case run cs constructor of None \<Rightarrow> None | Some s \<Rightarrow> map_of (playerToRoom s) p)"

text \<open>A player leaves a room it is not in (the room of another player), then joins the
  room it hosts.\<close>

definition opsSeatedTwice :: "(int \<times> op) list" where
  "opsSeatedTwice =
     [(0, RegisterPlayer ''p'' None),
      (0, RegisterPlayer ''q'' None),
      (1, CreateRoom ''p'' noRoomData [0, 0, 0, 0, 0, 0]),
      (2, CreateRoom ''q'' noRoomData [1, 1, 1, 1, 1, 1]),
      (3, RemovePlayerFromRoom ''p'' ''BBBBBB''),
      (4, AddPlayerToRoom ''p'' ''AAAAAA'')]"

text \<open>The player seated twice picks the mage and is ready, and the game starts in its room;
  then the player leaves the room.\<close>

definition opsSoloMatch :: "(int \<times> op) list" where
  "opsSoloMatch =
     opsSeatedTwice @
     [(5, SetPlayerCharacter ''p'' mage),
      (6, SetPlayerReady ''p'' True),
      (7, StartGame ''AAAAAA'')]"

definition opsSoloLeave :: "(int \<times> op) list" where
  "opsSoloLeave = opsSoloMatch @ [(8, RemovePlayerFromRoom ''p'' ''AAAAAA'')]"

text \<open>A third player connects during the match and opens a room of its own
  (\<open>BBBBBB\<close>).\<close>

definition opsStranger :: "(int \<times> op) list" where
  "opsStranger =
     opsStarted @
     [(8, RegisterPlayer ''x'' None),
      (8, CreateRoom ''x'' noRoomData [1, 1, 1, 1, 1, 1])]"

text \<open>\<open>replacesRoom c r\<close>: the operation is a \<^verbatim>\<open>createRoom\<close> whose caller supplies the room
  code \<open>r\<close>; \<open>staysCompleted r s s'\<close>: if the room under code \<open>r\<close> is completed in \<open>s\<close>, then
  in \<open>s'\<close> the code names no room or a completed one.\<close>

definition replacesRoom :: "op \<Rightarrow> string \<Rightarrow> bool" where
  "replacesRoom c r =
     (case c of
        CreateRoom h rd rnd \<Rightarrow> truthy (roomId_d rd) \<and> roomId_d rd = Some r
      | _ \<Rightarrow> False)"

definition staysCompleted :: "string \<Rightarrow> GameStateManager \<Rightarrow> GameStateManager \<Rightarrow> bool" where
  "staysCompleted r s s' \<longleftrightarrow>
     (\<forall>room. map_of (rooms s) r = Some room \<and> status room = Completed \<longrightarrow>
        (\<forall>room'. map_of (rooms s') r = Some room' \<longrightarrow> status room' = Completed))"

text \<open>The host of the sample match surrenders; then another player creates a room under
  the code of the completed room.\<close>

definition giveUp :: Action where
  "giveUp = \<lparr> type_act = ''surrender'', abilityId = None \<rparr>"

definition opsCompleted :: "(int \<times> op) list" where
  "opsCompleted = opsStarted @ [(8, ProcessGameAction ''h'' giveUp)]"

definition opsReplaced :: "(int \<times> op) list" where
  "opsReplaced =
     opsCompleted @
     [(9, RegisterPlayer ''q'' None),
      (10, CreateRoom ''q'' \<lparr> roomId_d = Some ''AAAAAA'', name_d = None, isPrivate_d = None \<rparr> [])]"

text \<open>A fourth player joins the new room and a new match starts there.\<close>

definition opsRematch :: "(int \<times> op) list" where
  "opsRematch =
     opsReplaced @
     [(11, RegisterPlayer ''w'' None),
      (12, AddPlayerToRoom ''w'' ''AAAAAA''),
      (13, SetPlayerCharacter ''q'' mage),
      (14, SetPlayerCharacter ''w'' mage),
      (15, SetPlayerReady ''q'' True),
      (16, SetPlayerReady ''w'' True),
      (17, StartGame ''AAAAAA'')]"

text \<open>The result object of a \<^verbatim>\<open>processGameAction\<close> call made after a run.\<close>

definition actionResultAfter ::
  "(int \<times> op) list \<Rightarrow> string \<Rightarrow> Action \<Rightarrow> int \<Rightarrow> Result option" where
  "actionResultAfter cs p a now =
     (case run cs constructor of
        None \<Rightarrow> None
      | Some s \<Rightarrow>
          (case processGameAction p a now s of
             Inl f \<Rightarrow> None
           | Inr (res, s') \<Rightarrow> Some res))"

text \<open>Three rooms created one minute apart, for the sweep.\<close>

definition opsThreeRooms :: "(int \<times> op) list" where
  "opsThreeRooms =
     [(0, RegisterPlayer ''a'' None),
      (0, CreateRoom ''a'' noRoomData [0, 0, 0, 0, 0, 0]),
      (60000, RegisterPlayer ''b'' None),
      (60000, CreateRoom ''b'' noRoomData [1, 1, 1, 1, 1, 1]),
      (120000, RegisterPlayer ''c'' None),
      (120000, CreateRoom ''c'' noRoomData [2, 2, 2, 2, 2, 2]),
      (120000, RegisterPlayer ''d'' None)]"

text \<open>A sweep with the default timeouts 61 minutes after the first room was created.\<close>

definition opsLateSweep :: "(int \<times> op) list" where
  "opsLateSweep =
     opsThreeRooms @ [(3660000, CleanupInactive defaultRoomTimeout defaultPlayerTimeout)]"

subsection \<open>Controller: what the disconnect and leave handlers do to the state\<close>

text \<open>\<^verbatim>\<open>handleUserDisconnection\<close> and \<^verbatim>\<open>handleLeaveRoom\<close> of \<^verbatim>\<open>gameController.js\<close>, without the
  messages they emit. \<^verbatim>\<open>data.roomId\<close> may be absent.\<close>

definition handleUserDisconnection :: "string \<Rightarrow> int \<Rightarrow> GameStateManager \<Rightarrow> GameStateManager" where
  "handleUserDisconnection socketId now s =
     (let s1 = (case map_of (playerToRoom s) socketId of
                  Some roomId \<Rightarrow>
                    (case getRoom s roomId of
                       Some room \<Rightarrow> snd (removePlayerFromRoom socketId roomId now s)
                     | None \<Rightarrow> s)
                | None \<Rightarrow> s)
      in unregisterPlayer socketId now s1)"

definition handleLeaveRoom ::
  "string \<Rightarrow> string option \<Rightarrow> int \<Rightarrow> GameStateManager \<Rightarrow> GameStateManager" where
  "handleLeaveRoom socketId roomId now s =
     (if map_of (playerToRoom s) socketId \<noteq> roomId then s
      else (case roomId of
              None \<Rightarrow> s
            | Some r \<Rightarrow> snd (removePlayerFromRoom socketId r now s)))"

text \<open>The host of the sample match names an ability its character does not have.\<close>

definition castUnknown :: Action where
  "castUnknown = \<lparr> type_act = ''ability'', abilityId = Some ''nope'' \<rparr>"

definition opsBadCast :: "(int \<times> op) list" where
  "opsBadCast = opsStarted @ [(8, ProcessGameAction ''h'' castUnknown)]"

text \<open>A player creates a room and then joins that same room.\<close>

definition opsOwnRoom :: "(int \<times> op) list" where
  "opsOwnRoom =
     [(0, RegisterPlayer ''p'' None),
      (1, CreateRoom ''p'' noRoomData [0, 0, 0, 0, 0, 0])]"

definition opsSelfJoin :: "(int \<times> op) list" where
  "opsSelfJoin = opsOwnRoom @ [(2, AddPlayerToRoom ''p'' ''AAAAAA'')]"

subsection \<open>Controller: the chat handler\<close>

text \<open>
  \<^verbatim>\<open>handleChatMessage(socket, data, io)\<close>. A value a client can send as \<^verbatim>\<open>data.message\<close> is a
  \<open>jsValue\<close>; \<^verbatim>\<open>data\<close> itself may be absent. The handler either returns without a message
  (\<open>Ignored\<close>) or emits one message to the room \<^verbatim>\<open>data.roomId\<close> (\<open>Emitted\<close>).
  A character of a string of the model is one of the code units U+0000 to U+00FF.
  \<^verbatim>\<open>String.prototype.trim\<close> removes the white space and the line terminators at both ends;
  among these code units they are U+0009 to U+000D, U+0020 and U+00A0 (\<open>isSpace\<close>). The
  white space above U+00FF (U+1680, U+2000 to U+200A, U+2028, U+2029, U+202F, U+205F,
  U+3000 and U+FEFF) is not a character of the model.

  The body of the handler reads the identifier \<^verbatim>\<open>gameState\<close>, which is not one of its
  parameters. The first argument of the model is what that identifier is bound to in the
  scope of \<^verbatim>\<open>gameController.js\<close>; reading an unbound identifier is a \<^const>\<open>ReferenceError\<close>.
  The module declares no such name and nothing in the repository defines a global of that
  name (the server keeps its manager in a \<^verbatim>\<open>const\<close> of its own module), which is
  \<open>moduleGameState\<close>.
\<close>

datatype jsValue = JUndefined | JNull | JBool bool | JNumber int | JString string | JObject

record ChatData =
  roomId_m :: "string option"
  message_m :: jsValue

record ChatMessage =
  id_m :: string
  playerId_m :: string
  playerName_m :: string
  text_m :: string
  timestamp_m :: int

datatype chatOutcome = Ignored | Emitted "string option" ChatMessage

definition isSpace :: "char \<Rightarrow> bool" where
  "isSpace c \<longleftrightarrow>
     c \<in> set [CHR 0x09, CHR 0x0A, CHR 0x0B, CHR 0x0C, CHR 0x0D, CHR 0x20, CHR 0xA0]"

definition trim :: "string \<Rightarrow> string" where
  "trim str = rev (dropWhile isSpace (rev (dropWhile isSpace str)))"

definition handleChatMessage ::
  "GameStateManager option \<Rightarrow> string \<Rightarrow> ChatData option \<Rightarrow> int \<Rightarrow> fault + chatOutcome" where
  "handleChatMessage gameState socketId data now =
     (case data of
        None \<Rightarrow> Inl TypeError
      | Some d \<Rightarrow>
          (case message_m d of
             JString m \<Rightarrow>
               if m = [] \<or> trim m = [] then Inr Ignored
               else
                 (case gameState of
                    None \<Rightarrow> Inl ReferenceError
                  | Some gs \<Rightarrow>
                      (case getPlayer gs socketId of
                         None \<Rightarrow> Inr Ignored
                       | Some player \<Rightarrow>
                           Inr (Emitted (roomId_m d)
                                  \<lparr> id_m = showInt now,
                                    playerId_m = socketId,
                                    playerName_m = name_p player,
                                    text_m = take 500 (trim m),
                                    timestamp_m = now \<rparr>)))
           | _ \<Rightarrow> Inr Ignored))"

definition moduleGameState :: "GameStateManager option" where
  "moduleGameState = None"

section \<open>Properties\<close>

subsection \<open>The shape of a roster\<close>

lemma evolves_refl [simp]: "evolves room room"
  by (simp add: evolves_def)

lemma evolves_trans: "evolves a b \<Longrightarrow> evolves b c \<Longrightarrow> evolves a c"
  by (simp add: evolves_def)

lemma wellSeated_evolves: "wellSeated room \<Longrightarrow> evolves room room' \<Longrightarrow> wellSeated room'"
  by (auto simp: wellSeated_def evolves_def split: list.splits)

lemma wellSeated_cases:
  assumes "wellSeated room"
  obtains (one) h where "players_r room = [h]" "hostId room = h" "guestId room = None" "maxPlayers room = 2"
        | (two) h g where "players_r room = [h, g]" "hostId room = h" "guestId room = Some g" "maxPlayers room = 2"
  using assms unfolding wellSeated_def
  by (auto split: list.splits)

lemma wellSeated_depart:
  assumes "wellSeated room" "depart p now room = (room', False)"
  shows "wellSeated room'"
  using assms(1)
proof (cases rule: wellSeated_cases)
  case (one h)
  with assms(2) show ?thesis
    by (auto simp: depart_def settle_def wellSeated_def Let_def split: if_splits)
next
  case (two h g)
  with assms(2) show ?thesis
    by (auto simp: depart_def settle_def wellSeated_def Let_def split: if_splits)
qed

lemma wellSeated_depart_fst:
  "wellSeated room \<Longrightarrow> \<not> snd (depart p now room) \<Longrightarrow> wellSeated (fst (depart p now room))"
  using wellSeated_depart[of room p now "fst (depart p now room)"]
  by (cases "depart p now room") auto

lemma rooms_removePlayerFromRoom:
  "map_of (rooms (snd (removePlayerFromRoom p r now s))) k =
     (if k = r then
        (case map_of (rooms s) r of
           None \<Rightarrow> None
         | Some room \<Rightarrow> (if snd (depart p now room) then None else Some (fst (depart p now room))))
      else map_of (rooms s) k)"
  by (auto simp: removePlayerFromRoom_def Let_def update_conv' delete_conv' split: option.splits prod.splits)

lemma rooms_leaveAllRooms:
  "rooms (snd (leaveAllRooms p now s)) =
     (case map_of (playerToRoom s) p of
        None \<Rightarrow> rooms s
      | Some r \<Rightarrow> rooms (snd (removePlayerFromRoom p r now s)))"
  by (simp add: leaveAllRooms_def split: option.splits)

lemma rooms_unregisterPlayer:
  "rooms (unregisterPlayer p now s) = rooms (snd (leaveAllRooms p now s))"
  by (simp add: unregisterPlayer_def leaveAllRooms_def Let_def split: option.splits)

lemma roomsOk_removePlayerFromRoom:
  "roomsOk s \<Longrightarrow> roomsOk (snd (removePlayerFromRoom p r now s))"
  unfolding roomsOk_def rooms_removePlayerFromRoom
  by (auto split: if_splits option.splits intro: wellSeated_depart_fst)

lemma roomsOk_leaveAllRooms:
  "roomsOk s \<Longrightarrow> roomsOk (snd (leaveAllRooms p now s))"
  using roomsOk_removePlayerFromRoom
  by (auto simp: roomsOk_def rooms_leaveAllRooms split: option.splits)

lemma roomsOk_unregisterPlayer:
  "roomsOk s \<Longrightarrow> roomsOk (unregisterPlayer p now s)"
  using roomsOk_leaveAllRooms[of s p now]
  by (simp add: roomsOk_def rooms_unregisterPlayer)

lemma roomsOk_registerPlayer:
  "roomsOk s \<Longrightarrow> roomsOk (snd (registerPlayer p n now s))"
  by (simp add: roomsOk_def registerPlayer_def Let_def)

lemma roomsOk_createRoom:
  assumes "roomsOk s" "createRoom h rd rnd now s = Some (ro, s')"
  shows "roomsOk s'"
proof -
  let ?s1 = "snd (leaveAllRooms h now s)"
  have ok1: "roomsOk ?s1" using assms(1) by (rule roomsOk_leaveAllRooms)
  show ?thesis
    using assms(2) ok1
    by (auto simp: createRoom_def Let_def roomsOk_def update_conv' wellSeated_def
             split: option.splits if_splits)
qed

lemma roomsOk_addPlayerToRoom:
  assumes "roomsOk s"
  shows "roomsOk (snd (addPlayerToRoom p r now s))"
proof (cases "map_of (rooms s) r")
  case None
  then show ?thesis using assms by (simp add: addPlayerToRoom_def)
next
  case (Some room)
  have ws: "wellSeated room" using assms Some by (auto simp: roomsOk_def)
  let ?s1 = "snd (leaveAllRooms p now s)"
  have ok1: "roomsOk ?s1" using assms by (rule roomsOk_leaveAllRooms)
  show ?thesis
  proof (cases "map_of (players s) p = None \<or> int (length (players_r room)) \<ge> maxPlayers room \<or> status room \<noteq> Waiting")
    case True
    then show ?thesis using assms Some
      by (auto simp: addPlayerToRoom_def split: option.splits)
  next
    case False
    from ws False obtain h where h: "players_r room = [h]" "hostId room = h" "guestId room = None" "maxPlayers room = 2"
      by (cases rule: wellSeated_cases) auto
    show ?thesis
      using False Some h ok1
      by (auto simp: addPlayerToRoom_def Let_def roomsOk_def update_conv' wellSeated_def depart_def settle_def
               split: option.splits if_splits prod.splits)
  qed
qed

lemma roomsEvolve_refl [simp]: "roomsEvolve s s"
  by (auto simp: roomsEvolve_def)

lemma roomsEvolve_same: "rooms s' = rooms s \<Longrightarrow> roomsEvolve s s'"
  by (auto simp: roomsEvolve_def)

lemma roomsEvolve_trans: "roomsEvolve a b \<Longrightarrow> roomsEvolve b c \<Longrightarrow> roomsEvolve a c"
  unfolding roomsEvolve_def by (meson evolves_trans)

lemma roomsOk_evolve: "roomsOk s \<Longrightarrow> roomsEvolve s s' \<Longrightarrow> roomsOk s'"
  unfolding roomsOk_def roomsEvolve_def by (meson wellSeated_evolves)

lemma rooms_updatePlayer [simp]: "rooms (snd (updatePlayer p f now s)) = rooms s"
  by (simp add: updatePlayer_def Let_def split: option.splits)

lemma playerToRoom_updatePlayer [simp]: "playerToRoom (snd (updatePlayer p f now s)) = playerToRoom s"
  by (simp add: updatePlayer_def Let_def split: option.splits)

lemma roomsEvolve_update:
  "map_of (rooms s) k = Some room \<Longrightarrow> evolves room room' \<Longrightarrow>
   roomsEvolve s (s \<lparr> rooms := AList.update k room' (rooms s) \<rparr>)"
  by (auto simp: roomsEvolve_def update_conv')

lemma roomsEvolve_setPlayerCharacter:
  "roomsEvolve s (snd (setPlayerCharacter p c now s))"
proof -
  obtain po s1 where u: "updatePlayer p (\<lambda>p. p \<lparr> character := Some c, health := health_c c, maxHealth := health_c c,
                        mana := mana_c c, maxMana := mana_c c, isReady := False \<rparr>) now s = (po, s1)"
    by (cases "updatePlayer p (\<lambda>p. p \<lparr> character := Some c, health := health_c c, maxHealth := health_c c,
                        mana := mana_c c, maxMana := mana_c c, isReady := False \<rparr>) now s") auto
  have r1: "rooms s1 = rooms s"
    using u by (auto simp: updatePlayer_def Let_def split: option.splits)
  have e1: "roomsEvolve s s1" using r1 by (rule roomsEvolve_same)
  have "roomsEvolve s1 (snd (setPlayerCharacter p c now s))"
    using u
    by (auto simp: setPlayerCharacter_def evolves_def intro!: roomsEvolve_update split: option.splits)
  with e1 show ?thesis by (rule roomsEvolve_trans)
qed

lemma roomsEvolve_setPlayerReady:
  assumes "setPlayerReady p b now s = Inr (res, s')"
  shows "roomsEvolve s s'"
proof -
  obtain po s1 where u: "updatePlayer p (\<lambda>p. p \<lparr> isReady := b \<rparr>) now s = (po, s1)"
    by (cases "updatePlayer p (\<lambda>p. p \<lparr> isReady := b \<rparr>) now s") auto
  have r1: "rooms s1 = rooms s"
    using u by (auto simp: updatePlayer_def Let_def split: option.splits)
  have e1: "roomsEvolve s s1" using r1 by (rule roomsEvolve_same)
  have "roomsEvolve s1 s'"
    using u assms
    by (auto simp: setPlayerReady_def evolves_def Let_def intro!: roomsEvolve_update
             split: option.splits if_splits sum.splits)
  with e1 show ?thesis by (rule roomsEvolve_trans)
qed

lemma roomsEvolve_startGame:
  assumes "startGame r now s = Inr (res, s')"
  shows "roomsEvolve s s'"
  using assms
  by (auto simp: startGame_def evolves_def intro!: roomsEvolve_update split: option.splits if_splits)

lemma rooms_modifyPlayer [simp]: "rooms (modifyPlayer k f s) = rooms s"
  by (simp add: modifyPlayer_def split: option.splits)

lemma roomsEvolve_modifyRoom:
  "(\<And>room. evolves room (f room)) \<Longrightarrow> roomsEvolve s (modifyRoom k f s)"
  by (auto simp: modifyRoom_def intro!: roomsEvolve_update split: option.splits)

lemma evolves_pushLog [simp]: "evolves room (pushLog ls room)"
  by (simp add: evolves_def pushLog_def)

lemma roomsEvolve_processAbilityUse:
  "roomsEvolve s (snd (processAbilityUse ai ap ti tp a r s))"
proof -
  have "roomsEvolve s (modifyRoom r (pushLog ls) s0)"
    if "rooms s0 = rooms s" for s0 :: GameStateManager and ls
    using roomsEvolve_modifyRoom[of "pushLog ls" s0 r] that
    by (auto simp: roomsEvolve_def)
  then show ?thesis
    by (auto simp: processAbilityUse_def Let_def split: option.splits)
qed

lemma roomsEvolve_processSurrender:
  "roomsEvolve s (snd (processSurrender ai ap r s))"
proof -
  have "roomsEvolve s (modifyRoom r (pushLog ls) s0)"
    if "rooms s0 = rooms s" for s0 :: GameStateManager and ls
    using roomsEvolve_modifyRoom[of "pushLog ls" s0 r] that
    by (auto simp: roomsEvolve_def)
  then show ?thesis
    by (auto simp: processSurrender_def Let_def)
qed

lemma roomsEvolve_finishAction:
  assumes "finishAction ai ti r now res0 s = Inr (res, s')"
  shows "roomsEvolve s s'"
  using assms
  by (auto simp: finishAction_def Let_def evolves_def intro!: roomsEvolve_update
           split: option.splits if_splits)

lemma roomsEvolve_processGameAction:
  assumes "processGameAction p a now s = Inr (res, s')"
  shows "roomsEvolve s s'"
proof -
  have ab: "roomsEvolve s s'"
    if "processAbilityUse p ap ti tp a r s = (res0, s1)" "finishAction p ti r now res0 s1 = Inr (res, s')"
    for ap ti tp r res0 s1
    using roomsEvolve_processAbilityUse[of s p ap ti tp a r] roomsEvolve_finishAction[OF that(2)] that(1)
    by (auto intro: roomsEvolve_trans)
  have su: "roomsEvolve s s'"
    if "processSurrender p ap r s = (res0, s1)" "finishAction p ti r now res0 s1 = Inr (res, s')"
    for ap ti r res0 s1
    using roomsEvolve_processSurrender[of s p ap r] roomsEvolve_finishAction[OF that(2)] that(1)
    by (auto intro: roomsEvolve_trans)
  show ?thesis
    using assms ab su
    unfolding processGameAction_def
    by (auto split: option.splits if_splits prod.splits)
qed

lemma map_of_fold_delete:
  "map_of (fold AList.delete ks al) p = (if p \<in> set ks then None else map_of al p)"
  by (induction ks arbitrary: al) (auto simp: delete_conv')

lemma sweepRooms_players [simp]: "players (sweepRooms now T es s) = players s"
  by (induction es arbitrary: s) auto

lemma sweepRooms_rooms:
  "map_of (rooms (sweepRooms now T es s)) k =
     (if (\<exists>room. (k, room) \<in> set es \<and> now - lastActivity room > T) then None
      else map_of (rooms s) k)"
proof (induction es arbitrary: s)
  case Nil
  then show ?case by simp
next
  case (Cons e es)
  obtain k' room' where e: "e = (k', room')" by (cases e)
  show ?case
    unfolding e sweepRooms.simps Cons.IH
    by (auto simp: delete_conv')
qed

lemma sweepRooms_playerToRoom:
  "map_of (playerToRoom (sweepRooms now T es s)) p =
     (if (\<exists>k room. (k, room) \<in> set es \<and> now - lastActivity room > T \<and> p \<in> set (players_r room))
      then None else map_of (playerToRoom s) p)"
proof (induction es arbitrary: s)
  case Nil
  then show ?case by simp
next
  case (Cons e es)
  obtain k' room' where e: "e = (k', room')" by (cases e)
  show ?case
    unfolding e sweepRooms.simps Cons.IH
    by (auto simp: map_of_fold_delete)
qed

lemma sweepPlayers_rooms [simp]: "rooms (sweepPlayers now P es s) = rooms s"
  by (induction es arbitrary: s) auto

lemma sweepPlayers_playerToRoom [simp]: "playerToRoom (sweepPlayers now P es s) = playerToRoom s"
  by (induction es arbitrary: s) auto

lemma sweepPlayers_players:
  "map_of (players (sweepPlayers now P es s)) p =
     (if (\<exists>pl. (p, pl) \<in> set es \<and> now - lastActive pl > P) \<and> map_of (playerToRoom s) p = None
      then None else map_of (players s) p)"
proof (induction es arbitrary: s)
  case Nil
  then show ?case by simp
next
  case (Cons e es)
  obtain k' pl' where e: "e = (k', pl')" by (cases e)
  show ?case
    unfolding e sweepPlayers.simps Cons.IH
    by (auto simp: delete_conv')
qed

lemma roomsEvolve_cleanupInactive: "roomsEvolve s (cleanupInactive rt pt now s)"
  by (auto simp: roomsEvolve_def cleanupInactive_def Let_def sweepRooms_rooms split: if_splits)

lemma roomsOk_exec:
  assumes "roomsOk s" "exec now c s = Some s'"
  shows "roomsOk s'"
proof (cases c)
  case (CreateRoom h rd rnd)
  then show ?thesis using assms roomsOk_createRoom by (cases "createRoom h rd rnd now s") auto
next
  case (SetPlayerReady p b)
  then show ?thesis using assms roomsOk_evolve[OF _ roomsEvolve_setPlayerReady]
    by (auto split: sum.splits prod.splits)
next
  case (StartGame r)
  then show ?thesis using assms roomsOk_evolve[OF _ roomsEvolve_startGame]
    by (auto split: sum.splits prod.splits)
next
  case (ProcessGameAction p a)
  then show ?thesis using assms roomsOk_evolve[OF _ roomsEvolve_processGameAction]
    by (auto split: sum.splits prod.splits)
qed (use assms in \<open>auto intro: roomsOk_registerPlayer roomsOk_unregisterPlayer roomsOk_addPlayerToRoom
      roomsOk_removePlayerFromRoom roomsOk_leaveAllRooms roomsOk_evolve[OF _ roomsEvolve_setPlayerCharacter]
      roomsOk_evolve[OF _ roomsEvolve_cleanupInactive]\<close>)

lemma roomsOk_run: "roomsOk s \<Longrightarrow> run cs s = Some s' \<Longrightarrow> roomsOk s'"
proof (induction cs arbitrary: s)
  case Nil
  then show ?case by simp
next
  case (Cons c cs)
  obtain now o' where c: "c = (now, o')" by (cases c)
  from Cons.prems(2) c obtain s1 where s1: "exec now o' s = Some s1" "run cs s1 = Some s'"
    by (auto split: option.splits)
  from roomsOk_exec[OF Cons.prems(1) s1(1)] Cons.IH s1(2) show ?case by blast
qed

lemma roomsOk_constructor: "roomsOk constructor"
  by (simp add: roomsOk_def constructor_def)

subsection \<open>Leaving a room\<close>

lemma playerToRoom_removePlayerFromRoom:
  "map_of (rooms s) r \<noteq> None \<Longrightarrow>
   map_of (playerToRoom (snd (removePlayerFromRoom p r now s))) q =
     (if q = p then None else map_of (playerToRoom s) q)"
  by (auto simp: removePlayerFromRoom_def Let_def delete_conv' split: option.splits prod.splits)

lemma players_removePlayerFromRoom [simp]:
  "players (snd (removePlayerFromRoom p r now s)) = players s"
  by (auto simp: removePlayerFromRoom_def Let_def split: option.splits prod.splits)

lemma fst_removePlayerFromRoom:
  "map_of (rooms s) r = Some room \<Longrightarrow>
   fst (removePlayerFromRoom p r now s) =
     (if snd (depart p now room) then ok \<lparr> roomClosed := True \<rparr> else ok)"
  by (auto simp: removePlayerFromRoom_def Let_def split: option.splits prod.splits)

lemma rooms_handleLeaveRoom:
  "map_of (playerToRoom s) p = Some r \<Longrightarrow>
   handleLeaveRoom p (Some r) now s = snd (removePlayerFromRoom p r now s)"
  by (simp add: handleLeaveRoom_def)

lemma rooms_handleUserDisconnection:
  assumes "map_of (playerToRoom s) p = Some r" "map_of (rooms s) r = Some room"
  shows "rooms (handleUserDisconnection p now s) = rooms (snd (removePlayerFromRoom p r now s))"
proof -
  have "map_of (playerToRoom (snd (removePlayerFromRoom p r now s))) p = None"
    using assms(2) by (simp add: playerToRoom_removePlayerFromRoom)
  then show ?thesis
    using assms by (simp add: handleUserDisconnection_def getRoom_def unregisterPlayer_def Let_def)
qed

text \<open>The state the sample match is in once it has started.\<close>

lemma started_state:
  "\<exists>s room. run opsStarted constructor = Some s \<and> map_of (rooms s) ''AAAAAA'' = Some room \<and>
     status room = InProgress \<and> players_r room = [''h'', ''g''] \<and> hostId room = ''h'' \<and>
     guestId room = Some ''g'' \<and> currentTurn (gameData room) = Some ''h'' \<and>
     turnCount (gameData room) = 1 \<and>
     map_of (playerToRoom s) ''h'' = Some ''AAAAAA'' \<and> map_of (playerToRoom s) ''g'' = Some ''AAAAAA''"
proof -
  have "map_option status (roomAfter opsStarted ''AAAAAA'') = Some InProgress"
       "map_option players_r (roomAfter opsStarted ''AAAAAA'') = Some [''h'', ''g'']"
       "map_option hostId (roomAfter opsStarted ''AAAAAA'') = Some ''h''"
       "map_option guestId (roomAfter opsStarted ''AAAAAA'') = Some (Some ''g'')"
       "map_option (currentTurn \<circ> gameData) (roomAfter opsStarted ''AAAAAA'') = Some (Some ''h'')"
       "map_option (turnCount \<circ> gameData) (roomAfter opsStarted ''AAAAAA'') = Some 1"
       "indexAfter opsStarted ''h'' = Some ''AAAAAA''"
       "indexAfter opsStarted ''g'' = Some ''AAAAAA''"
    by code_simp+
  then show ?thesis
    by (auto simp: roomAfter_def indexAfter_def split: option.splits)
qed

text \<open>The sample match with a third player in a room of its own.\<close>

lemma stranger_state:
  "\<exists>s room. run opsStranger constructor = Some s \<and> map_of (rooms s) ''AAAAAA'' = Some room \<and>
     status room = InProgress \<and> players_r room = [''h'', ''g''] \<and> hostId room = ''h'' \<and>
     map_of (playerToRoom s) ''x'' = Some ''BBBBBB'' \<and>
     map_of (playerToRoom s) ''h'' = Some ''AAAAAA''"
proof -
  have "map_option status (roomAfter opsStranger ''AAAAAA'') = Some InProgress"
       "map_option players_r (roomAfter opsStranger ''AAAAAA'') = Some [''h'', ''g'']"
       "map_option hostId (roomAfter opsStranger ''AAAAAA'') = Some ''h''"
       "indexAfter opsStranger ''x'' = Some ''BBBBBB''"
       "indexAfter opsStranger ''h'' = Some ''AAAAAA''"
    by code_simp+
  then show ?thesis
    by (auto simp: roomAfter_def indexAfter_def split: option.splits)
qed

text \<open>
  C10. For a room in progress (with its host seated, as every room of the registry has) and
  a player who is not in its roster, \<^verbatim>\<open>removePlayerFromRoom\<close> succeeds without closing the
  room, leaves the roster as it is, deletes the reverse-index entry of that player
  (whatever room it named) and no other entry, and ends the match: the status is
  \<open>Completed\<close>, the end timestamp is set and the winner is the first roster entry.
\<close>

theorem C10_stranger_removal_forfeits:
  assumes "map_of (rooms s) r = Some room" "status room = InProgress"
    and "p \<notin> set (players_r room)" "hostId room \<in> set (players_r room)"
  shows "success (fst (removePlayerFromRoom p r now s)) \<and>
         \<not> roomClosed (fst (removePlayerFromRoom p r now s)) \<and>
         (\<exists>room'. map_of (rooms (snd (removePlayerFromRoom p r now s))) r = Some room' \<and>
            players_r room' = players_r room \<and>
            status room' = Completed \<and>
            endTime (gameData room') = Some now \<and>
            winner (gameData room') = Some (players_r room ! 0)) \<and>
         (\<forall>q. map_of (playerToRoom (snd (removePlayerFromRoom p r now s))) q =
               (if q = p then None else map_of (playerToRoom s) q))"
proof -
  from assms(3,4) have ne: "p \<noteq> hostId room" by auto
  from assms(4) obtain w ws where ps: "players_r room = w # ws" by (cases "players_r room") auto
  have f: "filter (\<lambda>i. i \<noteq> p) (players_r room) = players_r room"
    using assms(3) by (auto simp: filter_id_conv)
  have d: "depart p now room = (settle p now room, False)"
    using ne f by (simp add: depart_def Let_def)
  have st: "players_r (settle p now room) = players_r room"
           "status (settle p now room) = Completed"
           "endTime (gameData (settle p now room)) = Some now"
           "winner (gameData (settle p now room)) = Some (players_r room ! 0)"
    using assms(2) ps by (auto simp: settle_def Let_def)
  show ?thesis
    using assms(1) d st
    by (simp add: rooms_removePlayerFromRoom fst_removePlayerFromRoom playerToRoom_removePlayerFromRoom ok_def)
qed

text \<open>The theorem at the sample match: the third player, whose index entry names its own
  room, is removed from the room of the match.\<close>

theorem C10_stranger_removal_forfeits_witness:
  "\<exists>s room. run opsStranger constructor = Some s \<and> map_of (rooms s) ''AAAAAA'' = Some room \<and>
     status room = InProgress \<and> players_r room = [''h'', ''g''] \<and> hostId room = ''h'' \<and>
     map_of (playerToRoom s) ''x'' = Some ''BBBBBB'' \<and>
     success (fst (removePlayerFromRoom ''x'' ''AAAAAA'' 9 s)) \<and>
     (\<exists>room'. map_of (rooms (snd (removePlayerFromRoom ''x'' ''AAAAAA'' 9 s))) ''AAAAAA'' = Some room' \<and>
        players_r room' = [''h'', ''g''] \<and> status room' = Completed \<and>
        endTime (gameData room') = Some 9 \<and> winner (gameData room') = Some ''h'') \<and>
     map_of (playerToRoom (snd (removePlayerFromRoom ''x'' ''AAAAAA'' 9 s))) ''x'' = None \<and>
     map_of (playerToRoom (snd (removePlayerFromRoom ''x'' ''AAAAAA'' 9 s))) ''h'' = Some ''AAAAAA''"
proof -
  from stranger_state obtain s room where
    s: "run opsStranger constructor = Some s" "map_of (rooms s) ''AAAAAA'' = Some room"
       "status room = InProgress" "players_r room = [''h'', ''g'']" "hostId room = ''h''"
       "map_of (playerToRoom s) ''x'' = Some ''BBBBBB''"
       "map_of (playerToRoom s) ''h'' = Some ''AAAAAA''"
    by blast
  have a: "''x'' \<notin> set (players_r room)" and b: "hostId room \<in> set (players_r room)"
    using s(4,5) by simp_all
  from C10_stranger_removal_forfeits[OF s(2,3) a b, of 9] s
  show ?thesis by (intro exI[of _ s] exI[of _ room]) simp
qed

subsection \<open>Processing an action\<close>


lemma playerToRoom_modifyPlayer [simp]: "playerToRoom (modifyPlayer k f s) = playerToRoom s"
  by (simp add: modifyPlayer_def split: option.splits)

lemma players_modifyRoom [simp]: "players (modifyRoom k f s) = players s"
  by (simp add: modifyRoom_def split: option.splits)

lemma playerToRoom_modifyRoom [simp]: "playerToRoom (modifyRoom k f s) = playerToRoom s"
  by (simp add: modifyRoom_def split: option.splits)

lemma rooms_modifyRoom:
  "map_of (rooms (modifyRoom k f s)) q =
     (if q = k then map_option f (map_of (rooms s) k) else map_of (rooms s) q)"
  by (auto simp: modifyRoom_def update_conv' split: option.splits)



lemma pushLog_nil [simp]: "pushLog [] room = room"
  by (simp add: pushLog_def)

lemma processAbilityUse_room:
  assumes "processAbilityUse ai ap ti tp a r s = (res0, s1)" "map_of (rooms s) r = Some room"
  shows "\<exists>ls. map_of (rooms s1) r = Some (pushLog ls room)"
proof (cases "s1 = s")
  case True
  then show ?thesis using assms(2) by (intro exI[of _ "[]"]) simp
next
  case False
  then show ?thesis
    using assms
    by (auto simp: processAbilityUse_def Let_def rooms_modifyRoom split: option.splits if_splits)
qed

lemma processSurrender_room:
  assumes "processSurrender ai ap r s = (res0, s1)" "map_of (rooms s) r = Some room"
  shows "\<exists>ls. map_of (rooms s1) r = Some (pushLog ls room)"
  using assms by (auto simp: processSurrender_def Let_def rooms_modifyRoom)

lemma finishAction_shape:
  assumes "finishAction ai ti r now res0 s1 = Inr (res, s')" "map_of (rooms s1) r = Some room1"
  shows "\<exists>room'. map_of (rooms s') r = Some room' \<and> players_r room' = players_r room1 \<and>
           hostId room' = hostId room1 \<and> guestId room' = guestId room1 \<and>
           ((status room' = Completed \<and>
             turnCount (gameData room') = turnCount (gameData room1) \<and>
             currentTurn (gameData room') = currentTurn (gameData room1)) \<or>
            (status room' = status room1 \<and>
             turnCount (gameData room') = turnCount (gameData room1) + 1 \<and>
             currentTurn (gameData room') =
               (if currentTurn (gameData room1) = Some (hostId room1) then guestId room1
                else Some (hostId room1))))"
  using assms
  by (auto simp: finishAction_def Let_def update_conv' split: option.splits if_splits)

lemma finishAction_changes:
  assumes "finishAction ai ti r now res0 s1 = Inr (res, s')" "map_of (rooms s1) r = Some room1"
    "status room1 = InProgress" "turnCount (gameData room1) = n"
  shows "\<exists>room'. map_of (rooms s') r = Some room' \<and>
           (status room' = Completed \<or> turnCount (gameData room') = n + 1)"
  using finishAction_shape[OF assms(1,2)] assms(3,4) by auto

lemma startGame_room:
  assumes "map_of (rooms s) r = Some room" "status room = Ready" "length (players_r room) = 2"
    "startGame r now s = Inr (res, s')"
  shows "success res \<and> (\<exists>room'. map_of (rooms s') r = Some room' \<and> status room' = InProgress \<and>
           currentTurn (gameData room') = Some (hostId room) \<and> turnCount (gameData room') = 1 \<and>
           players_r room' = players_r room \<and> hostId room' = hostId room \<and>
           guestId room' = guestId room)"
  using assms
  by (auto simp: startGame_def update_conv' ok_def split: option.splits if_splits)

lemma run_snoc:
  "run (cs @ [(now, c)]) s = (case run cs s of None \<Rightarrow> None | Some s1 \<Rightarrow> exec now c s1)"
  by (induction cs arbitrary: s) (auto split: option.splits)

lemma ready_state:
  "\<exists>s room. run opsReady constructor = Some s \<and> map_of (rooms s) ''AAAAAA'' = Some room \<and>
     status room = Ready \<and> players_r room = [''h'', ''g''] \<and> hostId room = ''h'' \<and>
     guestId room = Some ''g''"
proof -
  have "map_option status (roomAfter opsReady ''AAAAAA'') = Some Ready"
       "map_option players_r (roomAfter opsReady ''AAAAAA'') = Some [''h'', ''g'']"
       "map_option hostId (roomAfter opsReady ''AAAAAA'') = Some ''h''"
       "map_option guestId (roomAfter opsReady ''AAAAAA'') = Some (Some ''g'')"
    by code_simp+
  then show ?thesis
    by (auto simp: roomAfter_def split: option.splits)
qed


text \<open>
  One step of the match, for a room whose roster is host, guest, in any state. A
  \<^verbatim>\<open>startGame\<close> that returns from status \<open>Ready\<close> succeeds and leaves the room in progress
  with the turn at the host and turn counter 1. A \<^verbatim>\<open>processGameAction\<close> that returns, by a
  player whose reverse-index entry names the room while it is in progress, keeps the
  seating and does one of three things: it rejects the call and changes nothing; or it
  was the caller's turn and the action ends the match (status \<open>Completed\<close>, turn counter
  and turn owner unchanged); or it was the caller's turn, the match goes on, the turn
  counter is one more than before and the turn is at the other occupant. When it is the
  caller's turn, both player records exist and the action type is known, the call is not
  of the first kind.
\<close>

lemma turn_step:
  assumes seat: "map_of (rooms s) r = Some room" "players_r room = [h, g]"
                "hostId room = h" "guestId room = Some g"
  shows "(\<forall>res s'. status room = Ready \<and> startGame r now s = Inr (res, s') \<longrightarrow>
            success res \<and>
            (\<exists>room'. map_of (rooms s') r = Some room' \<and> players_r room' = [h, g] \<and>
               status room' = InProgress \<and>
               currentTurn (gameData room') = Some h \<and> turnCount (gameData room') = 1)) \<and>
         (\<forall>p a res s'.
            status room = InProgress \<and> r \<noteq> [] \<and> map_of (playerToRoom s) p = Some r \<and>
            processGameAction p a now s = Inr (res, s') \<longrightarrow>
            (\<exists>room'. map_of (rooms s') r = Some room' \<and> players_r room' = [h, g] \<and>
               hostId room' = h \<and> guestId room' = Some g \<and>
               (s' = s \<and> \<not> success res \<or>
                currentTurn (gameData room) = Some p \<and> status room' = Completed \<and>
                  turnCount (gameData room') = turnCount (gameData room) \<and>
                  currentTurn (gameData room') = Some p \<or>
                currentTurn (gameData room) = Some p \<and> status room' = InProgress \<and>
                  turnCount (gameData room') = turnCount (gameData room) + 1 \<and>
                  currentTurn (gameData room') = Some (if p = h then g else h)) \<and>
               (currentTurn (gameData room) = Some p \<and> map_of (players s) p \<noteq> None \<and>
                map_of (players s) (if p = h then g else h) \<noteq> None \<and>
                (type_act a = ''ability'' \<or> type_act a = ''surrender'') \<longrightarrow>
                  status room' = Completed \<or>
                  turnCount (gameData room') = turnCount (gameData room) + 1)))"
proof (rule conjI; intro allI impI)
  fix res s'
  assume "status room = Ready \<and> startGame r now s = Inr (res, s')"
  then show "success res \<and>
            (\<exists>room'. map_of (rooms s') r = Some room' \<and> players_r room' = [h, g] \<and>
               status room' = InProgress \<and>
               currentTurn (gameData room') = Some h \<and> turnCount (gameData room') = 1)"
    using startGame_room[OF seat(1), of now res s'] seat by auto
next
  fix p a res s'
  assume a: "status room = InProgress \<and> r \<noteq> [] \<and> map_of (playerToRoom s) p = Some r \<and>
            processGameAction p a now s = Inr (res, s')"
  let ?t = "if p = h then g else h"
  let ?goal = "\<exists>room'. map_of (rooms s') r = Some room' \<and> players_r room' = [h, g] \<and>
               hostId room' = h \<and> guestId room' = Some g \<and>
               (s' = s \<and> \<not> success res \<or>
                currentTurn (gameData room) = Some p \<and> status room' = Completed \<and>
                  turnCount (gameData room') = turnCount (gameData room) \<and>
                  currentTurn (gameData room') = Some p \<or>
                currentTurn (gameData room) = Some p \<and> status room' = InProgress \<and>
                  turnCount (gameData room') = turnCount (gameData room) + 1 \<and>
                  currentTurn (gameData room') = Some (if p = h then g else h)) \<and>
               (currentTurn (gameData room) = Some p \<and> map_of (players s) p \<noteq> None \<and>
                map_of (players s) (if p = h then g else h) \<noteq> None \<and>
                (type_act a = ''ability'' \<or> type_act a = ''surrender'') \<longrightarrow>
                  status room' = Completed \<or>
                  turnCount (gameData room') = turnCount (gameData room) + 1)"
  have tk: "(if p = hostId room then guestId room else Some (hostId room)) = Some ?t"
    using seat by simp
  have processed: ?goal
    if turn: "currentTurn (gameData room) = Some p"
      and fin: "finishAction p ?t r now res0 s1 = Inr (res, s')"
      and rm: "map_of (rooms s1) r = Some (pushLog ls room)"
    for res0 s1 ls
  proof -
    have st: "status (pushLog ls room) = InProgress"
             "turnCount (gameData (pushLog ls room)) = turnCount (gameData room)"
             "currentTurn (gameData (pushLog ls room)) = Some p"
             "hostId (pushLog ls room) = h" "guestId (pushLog ls room) = Some g"
             "players_r (pushLog ls room) = [h, g]"
      using a turn seat by (simp_all add: pushLog_def)
    from finishAction_shape[OF fin rm] st turn
    show ?thesis by auto
  qed
  show ?goal
  proof (cases "currentTurn (gameData room) = Some p \<and> map_of (players s) p \<noteq> None \<and>
                map_of (players s) ?t \<noteq> None \<and>
                (type_act a = ''ability'' \<or> type_act a = ''surrender'')")
    case False
    then have "s' = s \<and> \<not> success res"
      using a seat tk
      by (auto simp: processGameAction_def failure_def ok_def split: option.splits if_splits)
    then show ?thesis using seat False by auto
  next
    case True
    then obtain ap tp where ap: "map_of (players s) p = Some ap" and tp: "map_of (players s) ?t = Some tp"
      by auto
    show ?thesis
    proof (cases "type_act a = ''ability''")
      case ab: True
      obtain res0 s1 where d: "processAbilityUse p ap ?t tp a r s = (res0, s1)"
        by (cases "processAbilityUse p ap ?t tp a r s") auto
      have "processGameAction p a now s = finishAction p ?t r now res0 s1"
        using a seat(1) tk True ap tp ab d
        by (simp add: processGameAction_def)
      with a have fin: "finishAction p ?t r now res0 s1 = Inr (res, s')" by simp
      from processAbilityUse_room[OF d seat(1)] obtain ls where
        "map_of (rooms s1) r = Some (pushLog ls room)" by blast
      from processed[OF _ fin this] True show ?thesis by simp
    next
      case nab: False
      with True have su: "type_act a = ''surrender''" by simp
      obtain res0 s1 where d: "processSurrender p ap r s = (res0, s1)"
        by (cases "processSurrender p ap r s") auto
      have "processGameAction p a now s = finishAction p ?t r now res0 s1"
        using a seat(1) tk True ap tp nab su d
        by (simp add: processGameAction_def)
      with a have fin: "finishAction p ?t r now res0 s1 = Inr (res, s')" by simp
      from processSurrender_room[OF d seat(1)] obtain ls where
        "map_of (rooms s1) r = Some (pushLog ls room)" by blast
      from processed[OF _ fin this] True show ?thesis by simp
    qed
  qed
qed



subsection \<open>Keys are not repeated\<close>

lemma distinct_fold_delete:
  "distinct (map fst al) \<Longrightarrow> distinct (map fst (fold AList.delete ks al))"
  by (induction ks arbitrary: al) (auto simp: distinct_delete)

lemma keysOk_sweepRooms: "keysOk s \<Longrightarrow> keysOk (sweepRooms now T es s)"
  by (induction es arbitrary: s) (auto simp: keysOk_def distinct_delete distinct_fold_delete)

lemma keysOk_sweepPlayers: "keysOk s \<Longrightarrow> keysOk (sweepPlayers now T es s)"
  by (induction es arbitrary: s) (auto simp: keysOk_def distinct_delete)

lemma keysOk_removePlayerFromRoom: "keysOk s \<Longrightarrow> keysOk (snd (removePlayerFromRoom p r now s))"
  by (auto simp: keysOk_def removePlayerFromRoom_def Let_def distinct_delete distinct_update
           split: option.splits prod.splits)

lemma keysOk_leaveAllRooms: "keysOk s \<Longrightarrow> keysOk (snd (leaveAllRooms p now s))"
  by (auto simp: leaveAllRooms_def keysOk_removePlayerFromRoom split: option.splits)

lemma keysOk_updatePlayer: "keysOk s \<Longrightarrow> keysOk (snd (updatePlayer p f now s))"
  by (auto simp: keysOk_def updatePlayer_def Let_def distinct_update split: option.splits)

lemma keysOk_modifyPlayer: "keysOk s \<Longrightarrow> keysOk (modifyPlayer p f s)"
  by (auto simp: keysOk_def modifyPlayer_def distinct_update split: option.splits)

lemma keysOk_modifyRoom: "keysOk s \<Longrightarrow> keysOk (modifyRoom p f s)"
  by (auto simp: keysOk_def modifyRoom_def distinct_update split: option.splits)

lemma keysOk_rooms_update:
  "keysOk s \<Longrightarrow> keysOk (s \<lparr> rooms := AList.update k v (rooms s) \<rparr>)"
  by (simp add: keysOk_def distinct_update)

lemma keysOk_finishAction:
  "keysOk s \<Longrightarrow> finishAction ai ti r now res0 s = Inr (res, s') \<Longrightarrow> keysOk s'"
  by (auto simp: finishAction_def Let_def keysOk_rooms_update split: option.splits if_splits)

lemma keysOk_processGameAction:
  assumes "keysOk s" "processGameAction p a now s = Inr (res, s')"
  shows "keysOk s'"
proof -
  have ab: "keysOk (snd (processAbilityUse p ap ti tp a r s))" for ap ti tp r
    using assms(1)
    by (auto simp: processAbilityUse_def Let_def keysOk_modifyPlayer keysOk_modifyRoom
             split: option.splits)
  have su: "keysOk (snd (processSurrender p ap r s))" for ap r
    using assms(1)
    by (auto simp: processSurrender_def Let_def keysOk_modifyPlayer keysOk_modifyRoom)
  have f1: "keysOk s'"
    if "processAbilityUse p ap ti tp a r s = (res0, s1)"
       "finishAction p ti r now res0 s1 = Inr (res, s')" for ap ti tp r res0 s1
    using keysOk_finishAction[OF _ that(2)] ab[of ap ti tp r] that(1) by simp
  have f2: "keysOk s'"
    if "processSurrender p ap r s = (res0, s1)"
       "finishAction p ti r now res0 s1 = Inr (res, s')" for ap ti r res0 s1
    using keysOk_finishAction[OF _ that(2)] su[of ap r] that(1) by simp
  show ?thesis
    using assms f1 f2 unfolding processGameAction_def
    by (auto split: option.splits if_splits prod.splits)
qed

lemma keysOk_exec:
  assumes "keysOk s" "exec now c s = Some s'"
  shows "keysOk s'"
proof (cases c)
  case (RegisterPlayer p n)
  then show ?thesis using assms
    by (auto simp: registerPlayer_def Let_def keysOk_def distinct_update)
next
  case (UnregisterPlayer p)
  have k: "keysOk (snd (leaveAllRooms p now s))" using assms(1) by (rule keysOk_leaveAllRooms)
  have eq: "unregisterPlayer p now s =
      (snd (leaveAllRooms p now s))
        \<lparr> players := AList.delete p (players (snd (leaveAllRooms p now s))),
          playerToRoom := AList.delete p (playerToRoom (snd (leaveAllRooms p now s))) \<rparr>"
    by (simp add: unregisterPlayer_def leaveAllRooms_def Let_def split: option.splits)
  have "keysOk (unregisterPlayer p now s)"
    unfolding eq using k by (simp add: keysOk_def distinct_delete)
  then show ?thesis using assms(2) UnregisterPlayer by simp
next
  case (CreateRoom h rd rnd)
  have "keysOk (snd (leaveAllRooms h now s))" using assms(1) by (rule keysOk_leaveAllRooms)
  then show ?thesis using assms CreateRoom
    by (auto simp: createRoom_def Let_def keysOk_def distinct_update split: option.splits if_splits)
next
  case (AddPlayerToRoom p r)
  have "keysOk (snd (leaveAllRooms p now s))" using assms(1) by (rule keysOk_leaveAllRooms)
  then show ?thesis using assms AddPlayerToRoom
    by (auto simp: addPlayerToRoom_def Let_def keysOk_def distinct_update
             split: option.splits if_splits prod.splits)
next
  case (RemovePlayerFromRoom p r)
  then show ?thesis using assms keysOk_removePlayerFromRoom by auto
next
  case (LeaveAllRooms p)
  then show ?thesis using assms keysOk_leaveAllRooms by auto
next
  case (SetPlayerCharacter p ch)
  obtain po s1 where u: "updatePlayer p (\<lambda>p. p \<lparr> character := Some ch, health := health_c ch,
        maxHealth := health_c ch, mana := mana_c ch, maxMana := mana_c ch, isReady := False \<rparr>) now s = (po, s1)"
    by (cases "updatePlayer p (\<lambda>p. p \<lparr> character := Some ch, health := health_c ch,
        maxHealth := health_c ch, mana := mana_c ch, maxMana := mana_c ch, isReady := False \<rparr>) now s") auto
  have "keysOk s1" using keysOk_updatePlayer[OF assms(1), of p _ now] u by (metis snd_conv)
  then show ?thesis using assms SetPlayerCharacter u
    by (auto simp: setPlayerCharacter_def keysOk_rooms_update split: option.splits if_splits)
next
  case (SetPlayerReady p b)
  obtain po s1 where u: "updatePlayer p (\<lambda>p. p \<lparr> isReady := b \<rparr>) now s = (po, s1)"
    by (cases "updatePlayer p (\<lambda>p. p \<lparr> isReady := b \<rparr>) now s") auto
  have "keysOk s1" using keysOk_updatePlayer[OF assms(1), of p _ now] u by (metis snd_conv)
  then show ?thesis using assms SetPlayerReady u
    by (auto simp: setPlayerReady_def Let_def keysOk_rooms_update split: option.splits if_splits sum.splits)
next
  case (StartGame r)
  then show ?thesis using assms
    by (auto simp: startGame_def keysOk_rooms_update split: option.splits if_splits sum.splits)
next
  case (ProcessGameAction p a)
  then show ?thesis using assms keysOk_processGameAction
    by (auto split: sum.splits prod.splits)
next
  case (CleanupInactive rt pt)
  then show ?thesis using assms
    by (auto simp: cleanupInactive_def Let_def keysOk_sweepRooms keysOk_sweepPlayers)
qed

lemma keysOk_run: "keysOk s \<Longrightarrow> run cs s = Some s' \<Longrightarrow> keysOk s'"
proof (induction cs arbitrary: s)
  case Nil
  then show ?case by simp
next
  case (Cons c cs)
  obtain now o' where c: "c = (now, o')" by (cases c)
  from Cons.prems(2) c obtain s1 where s1: "exec now o' s = Some s1" "run cs s1 = Some s'"
    by (auto split: option.splits)
  from keysOk_exec[OF Cons.prems(1) s1(1)] Cons.IH s1(2) show ?case by blast
qed

lemma keysOk_reachable: "run cs constructor = Some s \<Longrightarrow> keysOk s"
  using keysOk_run[of constructor cs s] by (simp add: keysOk_def constructor_def)

subsection \<open>Turn order of the matches in progress\<close>

lemma matchOk_idle: "status room \<noteq> InProgress \<Longrightarrow> matchOk room"
  by (simp add: matchOk_def)

lemma status_settle: "status (settle p now room) \<noteq> InProgress"
  by (simp add: settle_def Let_def)

lemma status_depart_idle: "depart p now room = (room', False) \<Longrightarrow> status room' \<noteq> InProgress"
  by (auto simp: depart_def Let_def status_settle split: if_splits list.splits)

lemma status_depart_fst: "\<not> snd (depart p now room) \<Longrightarrow> status (fst (depart p now room)) \<noteq> InProgress"
  using status_depart_idle[of p now room "fst (depart p now room)"]
  by (cases "depart p now room") auto

lemma matchOk_depart_fst: "\<not> snd (depart p now room) \<Longrightarrow> matchOk (fst (depart p now room))"
  by (rule matchOk_idle) (rule status_depart_fst)

lemma matchesOk_removePlayerFromRoom:
  "matchesOk s \<Longrightarrow> matchesOk (snd (removePlayerFromRoom p r now s))"
  unfolding matchesOk_def rooms_removePlayerFromRoom
  by (auto split: if_splits option.splits intro: matchOk_depart_fst)

lemma matchesOk_leaveAllRooms:
  "matchesOk s \<Longrightarrow> matchesOk (snd (leaveAllRooms p now s))"
  using matchesOk_removePlayerFromRoom
  by (auto simp: matchesOk_def rooms_leaveAllRooms split: option.splits)

lemma matchesOk_unregisterPlayer:
  "matchesOk s \<Longrightarrow> matchesOk (unregisterPlayer p now s)"
  using matchesOk_leaveAllRooms[of s p now]
  by (simp add: matchesOk_def rooms_unregisterPlayer)

lemma rooms_createRoom:
  assumes "createRoom h rd rnd now s = Some (ro, s')" "map_of (rooms s') k = Some room'"
  shows "map_of (rooms (snd (leaveAllRooms h now s))) k = Some room' \<or> status room' = Waiting"
  using assms
  by (auto simp: createRoom_def Let_def update_conv' split: option.splits if_splits)

lemma rooms_addPlayerToRoom:
  assumes "map_of (rooms (snd (addPlayerToRoom p r now s))) k = Some room'"
  shows "map_of (rooms (snd (leaveAllRooms p now s))) k = Some room' \<or> status room' = Waiting \<or>
         map_of (rooms s) k = Some room'"
proof -
  have st: "status room1 = Waiting" if "depart p now room = (room1, d)" "status room = Waiting"
    for room room1 d
    using that by (auto simp: depart_def settle_def Let_def split: list.splits if_splits)
  show ?thesis
    using assms
    by (auto simp: addPlayerToRoom_def Let_def update_conv' dest: st
             split: option.splits if_splits prod.splits)
qed

lemma matchesOk_createRoom:
  assumes "matchesOk s" "createRoom h rd rnd now s = Some (ro, s')"
  shows "matchesOk s'"
  using matchesOk_leaveAllRooms[OF assms(1), of h now] rooms_createRoom[OF assms(2)]
  unfolding matchesOk_def by (metis matchOk_idle status.distinct(3))

lemma matchesOk_addPlayerToRoom:
  assumes "matchesOk s"
  shows "matchesOk (snd (addPlayerToRoom p r now s))"
  using matchesOk_leaveAllRooms[OF assms, of p now] rooms_addPlayerToRoom[of p r now s] assms
  unfolding matchesOk_def by (metis matchOk_idle status.distinct(3))


lemma advances_refl [simp]: "advances room room"
  by (simp add: advances_def)

lemma roomsAdvance_refl [simp]: "roomsAdvance s s"
  by (auto simp: roomsAdvance_def)

lemma matchOk_advances:
  assumes "wellSeated room" "matchOk room" "advances room room'"
  shows "matchOk room'"
proof (cases "status room' = InProgress")
  case False
  then show ?thesis by (rule matchOk_idle)
next
  case True
  from assms(3) have seats: "players_r room' = players_r room" "hostId room' = hostId room"
      "guestId room' = guestId room"
    by (simp_all add: advances_def)
  from assms(3) True consider
      (same) "status room = InProgress" "turnCount (gameData room') = turnCount (gameData room)"
             "currentTurn (gameData room') = currentTurn (gameData room)"
    | (start) "length (players_r room) = 2" "turnCount (gameData room') = 1"
              "currentTurn (gameData room') = Some (hostId room)"
    | (turn) "status room = InProgress"
             "turnCount (gameData room') = turnCount (gameData room) + 1"
             "currentTurn (gameData room') =
                (if currentTurn (gameData room) = Some (hostId room) then guestId room
                 else Some (hostId room))"
    by (auto simp: advances_def)
  then show ?thesis
  proof cases
    case same
    then show ?thesis using assms(2) True seats by (simp add: matchOk_def)
  next
    case start
    then show ?thesis using True seats by (simp add: matchOk_def)
  next
    case turn
    from assms(2) turn(1) have m: "length (players_r room) = 2" "1 \<le> turnCount (gameData room)"
      "currentTurn (gameData room) =
         (if odd (turnCount (gameData room)) then Some (hostId room) else guestId room)"
      by (simp_all add: matchOk_def)
    from assms(1) m(1) obtain h g where hg: "players_r room = [h, g]" "hostId room = h"
      "guestId room = Some g"
      by (cases rule: wellSeated_cases) auto
    show ?thesis
      using True seats turn m hg by (auto simp: matchOk_def)
  qed
qed

lemma matchesOk_advance:
  "roomsOk s \<Longrightarrow> matchesOk s \<Longrightarrow> roomsAdvance s s' \<Longrightarrow> matchesOk s'"
  unfolding roomsOk_def matchesOk_def roomsAdvance_def by (meson matchOk_advances)

lemma roomsAdvance_update:
  "map_of (rooms s) k = Some room \<Longrightarrow> advances room room' \<Longrightarrow>
   roomsAdvance s (s \<lparr> rooms := AList.update k room' (rooms s) \<rparr>)"
  by (auto simp: roomsAdvance_def update_conv')

lemma roomsAdvance_rooms:
  "rooms s1 = rooms s \<Longrightarrow> roomsAdvance s1 s' \<Longrightarrow> roomsAdvance s s'"
  by (simp add: roomsAdvance_def)

lemma roomsAdvance_setPlayerCharacter:
  "roomsAdvance s (snd (setPlayerCharacter p c now s))"
proof -
  obtain po s1 where u: "updatePlayer p (\<lambda>p. p \<lparr> character := Some c, health := health_c c, maxHealth := health_c c,
                        mana := mana_c c, maxMana := mana_c c, isReady := False \<rparr>) now s = (po, s1)"
    by (cases "updatePlayer p (\<lambda>p. p \<lparr> character := Some c, health := health_c c, maxHealth := health_c c,
                        mana := mana_c c, maxMana := mana_c c, isReady := False \<rparr>) now s") auto
  have r1: "rooms s1 = rooms s"
    using u by (auto simp: updatePlayer_def Let_def split: option.splits)
  have "roomsAdvance s1 (snd (setPlayerCharacter p c now s))"
    using u
    by (auto simp: setPlayerCharacter_def advances_def intro!: roomsAdvance_update split: option.splits)
  with r1 show ?thesis by (rule roomsAdvance_rooms)
qed

lemma roomsAdvance_setPlayerReady:
  assumes "setPlayerReady p b now s = Inr (res, s')"
  shows "roomsAdvance s s'"
proof -
  obtain po s1 where u: "updatePlayer p (\<lambda>p. p \<lparr> isReady := b \<rparr>) now s = (po, s1)"
    by (cases "updatePlayer p (\<lambda>p. p \<lparr> isReady := b \<rparr>) now s") auto
  have r1: "rooms s1 = rooms s"
    using u by (auto simp: updatePlayer_def Let_def split: option.splits)
  have "roomsAdvance s1 s'"
    using u assms
    by (auto simp: setPlayerReady_def advances_def Let_def intro!: roomsAdvance_update
             split: option.splits if_splits sum.splits)
  with r1 show ?thesis by (rule roomsAdvance_rooms)
qed

lemma roomsAdvance_startGame:
  assumes "startGame r now s = Inr (res, s')"
  shows "roomsAdvance s s'"
  using assms
  by (auto simp: startGame_def advances_def intro!: roomsAdvance_update split: option.splits if_splits)

lemma roomsAdvance_cleanupInactive: "roomsAdvance s (cleanupInactive rt pt now s)"
  by (auto simp: roomsAdvance_def cleanupInactive_def Let_def sweepRooms_rooms split: if_splits)


lemma processAbilityUse_rooms:
  assumes "processAbilityUse ai ap ti tp a r s = (res0, s1)"
  shows "\<exists>ls. \<forall>k. map_of (rooms s1) k =
           (if k = r then map_option (pushLog ls) (map_of (rooms s) r) else map_of (rooms s) k)"
proof (cases "s1 = s")
  case True
  have "map_option (pushLog []) (map_of (rooms s) r) = map_of (rooms s) r"
    by (cases "map_of (rooms s) r") simp_all
  then show ?thesis using True by (intro exI[of _ "[]"]) simp
next
  case False
  then show ?thesis
    using assms
    by (auto simp: processAbilityUse_def Let_def rooms_modifyRoom split: option.splits if_splits)
qed

lemma processSurrender_rooms:
  assumes "processSurrender ai ap r s = (res0, s1)"
  shows "\<exists>ls. \<forall>k. map_of (rooms s1) k =
           (if k = r then map_option (pushLog ls) (map_of (rooms s) r) else map_of (rooms s) k)"
  using assms by (auto simp: processSurrender_def Let_def rooms_modifyRoom)

lemma finishAction_rooms_other:
  "finishAction ai ti r now res0 s1 = Inr (res, s') \<Longrightarrow> k \<noteq> r \<Longrightarrow>
   map_of (rooms s') k = map_of (rooms s1) k"
  by (auto simp: finishAction_def Let_def update_conv' split: option.splits if_splits)

lemma processGameAction_processed:
  assumes "processGameAction p a now s = Inr (res, s')" "s' \<noteq> s"
  obtains r room t res0 s1 ls where
    "map_of (playerToRoom s) p = Some r" "r \<noteq> []" "map_of (rooms s) r = Some room"
    "status room = InProgress" "currentTurn (gameData room) = Some p"
    "finishAction p t r now res0 s1 = Inr (res, s')"
    "\<And>k. map_of (rooms s1) k =
           (if k = r then Some (pushLog ls room) else map_of (rooms s) k)"
proof -
  from assms obtain r where r: "map_of (playerToRoom s) p = Some r" "r \<noteq> []"
    by (auto simp: processGameAction_def split: option.splits if_splits)
  from assms r obtain room where room: "map_of (rooms s) r = Some room"
    "status room = InProgress" "currentTurn (gameData room) = Some p"
    by (auto simp: processGameAction_def split: option.splits if_splits)
  from assms r room obtain ap t tp where
    pl: "map_of (players s) p = Some ap"
        "(if p = hostId room then guestId room else Some (hostId room)) = Some t"
        "map_of (players s) t = Some tp"
    and ty: "type_act a = ''ability'' \<or> type_act a = ''surrender''"
    by (auto simp: processGameAction_def split: option.splits if_splits)
  show ?thesis
  proof (cases "type_act a = ''ability''")
    case True
    obtain res0 s1 where d: "processAbilityUse p ap t tp a r s = (res0, s1)"
      by (cases "processAbilityUse p ap t tp a r s") auto
    have "processGameAction p a now s = finishAction p t r now res0 s1"
      using r room pl True d by (simp add: processGameAction_def)
    with assms(1) have fin: "finishAction p t r now res0 s1 = Inr (res, s')" by simp
    from processAbilityUse_rooms[OF d]
    obtain ls where L: "\<forall>k. map_of (rooms s1) k =
           (if k = r then map_option (pushLog ls) (map_of (rooms s) r) else map_of (rooms s) k)"
      by blast
    have "map_of (rooms s1) k =
           (if k = r then Some (pushLog ls room) else map_of (rooms s) k)" for k
      using L room(1) by simp
    with fin r room show ?thesis by (intro that[of r room t res0 s1 ls]) auto
  next
    case False
    with ty have su: "type_act a = ''surrender''" by simp
    obtain res0 s1 where d: "processSurrender p ap r s = (res0, s1)"
      by (cases "processSurrender p ap r s") auto
    have "processGameAction p a now s = finishAction p t r now res0 s1"
      using r room pl False su d by (simp add: processGameAction_def)
    with assms(1) have fin: "finishAction p t r now res0 s1 = Inr (res, s')" by simp
    from processSurrender_rooms[OF d]
    obtain ls where L: "\<forall>k. map_of (rooms s1) k =
           (if k = r then map_option (pushLog ls) (map_of (rooms s) r) else map_of (rooms s) k)"
      by blast
    have "map_of (rooms s1) k =
           (if k = r then Some (pushLog ls room) else map_of (rooms s) k)" for k
      using L room(1) by simp
    with fin r room show ?thesis by (intro that[of r room t res0 s1 ls]) auto
  qed
qed

lemma roomsAdvance_processGameAction:
  assumes "processGameAction p a now s = Inr (res, s')"
  shows "roomsAdvance s s'"
proof (cases "s' = s")
  case True
  then show ?thesis by simp
next
  case False
  from processGameAction_processed[OF assms False] obtain r room t res0 s1 ls where
    p: "map_of (rooms s) r = Some room" "status room = InProgress"
       "finishAction p t r now res0 s1 = Inr (res, s')"
       "\<And>k. map_of (rooms s1) k =
           (if k = r then Some (pushLog ls room) else map_of (rooms s) k)"
    by metis
  have r1: "map_of (rooms s1) r = Some (pushLog ls room)" using p(4) by simp
  have st: "status (pushLog ls room) = InProgress"
           "turnCount (gameData (pushLog ls room)) = turnCount (gameData room)"
           "currentTurn (gameData (pushLog ls room)) = currentTurn (gameData room)"
           "hostId (pushLog ls room) = hostId room" "guestId (pushLog ls room) = guestId room"
           "players_r (pushLog ls room) = players_r room"
    using p(2) by (simp_all add: pushLog_def)
  from finishAction_shape[OF p(3) r1] st obtain room' where
    r': "map_of (rooms s') r = Some room'" "advances room room'"
    using p(2) by (auto simp: advances_def)
  show ?thesis
    unfolding roomsAdvance_def
  proof (intro allI impI)
    fix k room''
    assume k: "map_of (rooms s') k = Some room''"
    show "\<exists>room. map_of (rooms s) k = Some room \<and> advances room room''"
    proof (cases "k = r")
      case True
      then show ?thesis using k r' p(1) by auto
    next
      case False
      then have "map_of (rooms s') k = map_of (rooms s) k"
        using finishAction_rooms_other[OF p(3), of k] p(4) by simp
      with k have "map_of (rooms s) k = Some room''" by simp
      then show ?thesis by (intro exI[of _ room'']) simp
    qed
  qed
qed

lemma matchesOk_exec:
  assumes "roomsOk s" "matchesOk s" "exec now c s = Some s'"
  shows "matchesOk s'"
proof (cases c)
  case (RegisterPlayer p n)
  then show ?thesis using assms by (auto simp: registerPlayer_def Let_def matchesOk_def)
next
  case (UnregisterPlayer p)
  then show ?thesis using assms matchesOk_unregisterPlayer by auto
next
  case (CreateRoom h rd rnd)
  then show ?thesis using assms matchesOk_createRoom
    by (cases "createRoom h rd rnd now s") auto
next
  case (AddPlayerToRoom p k)
  then show ?thesis using assms matchesOk_addPlayerToRoom by auto
next
  case (RemovePlayerFromRoom p k)
  then show ?thesis using assms matchesOk_removePlayerFromRoom by auto
next
  case (LeaveAllRooms p)
  then show ?thesis using assms matchesOk_leaveAllRooms by auto
next
  case (SetPlayerCharacter p ch)
  then show ?thesis using assms matchesOk_advance[OF _ _ roomsAdvance_setPlayerCharacter] by auto
next
  case (SetPlayerReady p b)
  then show ?thesis using assms matchesOk_advance[OF _ _ roomsAdvance_setPlayerReady]
    by (auto split: sum.splits prod.splits)
next
  case (StartGame k)
  then show ?thesis using assms matchesOk_advance[OF _ _ roomsAdvance_startGame]
    by (auto split: sum.splits prod.splits)
next
  case (ProcessGameAction p a)
  then show ?thesis using assms matchesOk_advance[OF _ _ roomsAdvance_processGameAction]
    by (auto split: sum.splits prod.splits)
next
  case (CleanupInactive rt pt)
  then show ?thesis using assms matchesOk_advance[OF _ _ roomsAdvance_cleanupInactive] by auto
qed

lemma matchesOk_run: "roomsOk s \<Longrightarrow> matchesOk s \<Longrightarrow> run cs s = Some s' \<Longrightarrow> matchesOk s'"
proof (induction cs arbitrary: s)
  case Nil
  then show ?case by simp
next
  case (Cons c cs)
  obtain now o' where c: "c = (now, o')" by (cases c)
  from Cons.prems(3) c obtain s1 where s1: "exec now o' s = Some s1" "run cs s1 = Some s'"
    by (auto split: option.splits)
  from roomsOk_exec[OF Cons.prems(1) s1(1)] matchesOk_exec[OF Cons.prems(1,2) s1(1)]
    Cons.IH s1(2) show ?case by blast
qed

lemma match_reachable:
  assumes "run cs constructor = Some s" "map_of (rooms s) r = Some room" "status room = InProgress"
  shows "\<exists>h g. players_r room = [h, g] \<and> hostId room = h \<and> guestId room = Some g \<and>
           1 \<le> turnCount (gameData room) \<and>
           currentTurn (gameData room) = Some (if odd (turnCount (gameData room)) then h else g)"
proof -
  have ro: "roomsOk s" using roomsOk_run[OF roomsOk_constructor assms(1)] .
  have "matchesOk constructor" by (simp add: matchesOk_def constructor_def)
  from matchesOk_run[OF roomsOk_constructor this assms(1)] have mo: "matchesOk s" .
  from ro assms(2) have ws: "wellSeated room" by (auto simp: roomsOk_def)
  from mo assms(2,3) have m: "length (players_r room) = 2" "1 \<le> turnCount (gameData room)"
      "currentTurn (gameData room) =
         (if odd (turnCount (gameData room)) then Some (hostId room) else guestId room)"
    by (auto simp: matchesOk_def matchOk_def)
  from ws m(1) obtain h g where "players_r room = [h, g]" "hostId room = h" "guestId room = Some g"
    by (cases rule: wellSeated_cases) auto
  with m show ?thesis by auto
qed

lemma startGame_success:
  assumes "startGame r now s = Inr (res, s')" "success res" "map_of (rooms s) r = Some room"
  shows "status room = Ready \<and> length (players_r room) = 2 \<and>
         (\<exists>room'. map_of (rooms s') r = Some room' \<and> status room' = InProgress \<and>
            players_r room' = players_r room \<and> hostId room' = hostId room \<and>
            guestId room' = guestId room \<and>
            currentTurn (gameData room') = Some (hostId room) \<and>
            turnCount (gameData room') = 1)"
  using assms
  by (auto simp: startGame_def update_conv' ok_def failure_def split: option.splits if_splits)

lemma startGame_failure:
  "startGame r now s = Inr (res, s') \<Longrightarrow> \<not> success res \<Longrightarrow> s' = s"
  by (auto simp: startGame_def ok_def split: option.splits if_splits)

text \<open>
  C2. In every state the manager reaches from the empty one, for every room of the
  registry: a \<^verbatim>\<open>startGame\<close> that succeeds finds the roster host, guest and leaves the room
  in progress with the turn at the host and turn counter 1; and while the room is in
  progress its roster is host, guest, its turn counter is at least 1, the turn is the
  host's when the counter is odd and the guest's when it is even, and every
  \<^verbatim>\<open>processGameAction\<close> that returns, by a player whose reverse-index entry names the room,
  keeps the seating and does one of three things: it rejects the call and changes
  nothing; or it was the caller's turn and the action ends the match (status
  \<open>Completed\<close>, turn counter and turn owner unchanged); or it was the caller's turn, the
  match goes on, the turn counter is exactly one more than before and the turn is at the
  other occupant. When it is the caller's turn, both player records exist and the action
  type is known, the call is not of the first kind.
\<close>

theorem C2_turn_alternation:
  assumes "run cs constructor = Some s" "map_of (rooms s) r = Some room"
  shows "(\<forall>now res s'. startGame r now s = Inr (res, s') \<and> success res \<longrightarrow>
            (\<exists>h g room'. players_r room = [h, g] \<and> hostId room = h \<and> guestId room = Some g \<and>
               map_of (rooms s') r = Some room' \<and> players_r room' = [h, g] \<and>
               status room' = InProgress \<and>
               currentTurn (gameData room') = Some h \<and> turnCount (gameData room') = 1)) \<and>
         (status room = InProgress \<longrightarrow>
            (\<exists>h g. players_r room = [h, g] \<and> hostId room = h \<and> guestId room = Some g \<and>
               1 \<le> turnCount (gameData room) \<and>
               currentTurn (gameData room) =
                 Some (if odd (turnCount (gameData room)) then h else g) \<and>
               (\<forall>p a now res s'.
                  r \<noteq> [] \<and> map_of (playerToRoom s) p = Some r \<and>
                  processGameAction p a now s = Inr (res, s') \<longrightarrow>
                  (\<exists>room'. map_of (rooms s') r = Some room' \<and> players_r room' = [h, g] \<and>
                     hostId room' = h \<and> guestId room' = Some g \<and>
                     (s' = s \<and> \<not> success res \<or>
                      currentTurn (gameData room) = Some p \<and> status room' = Completed \<and>
                        turnCount (gameData room') = turnCount (gameData room) \<and>
                        currentTurn (gameData room') = Some p \<or>
                      currentTurn (gameData room) = Some p \<and> status room' = InProgress \<and>
                        turnCount (gameData room') = turnCount (gameData room) + 1 \<and>
                        currentTurn (gameData room') = Some (if p = h then g else h)) \<and>
                     (currentTurn (gameData room) = Some p \<and> map_of (players s) p \<noteq> None \<and>
                      map_of (players s) (if p = h then g else h) \<noteq> None \<and>
                      (type_act a = ''ability'' \<or> type_act a = ''surrender'') \<longrightarrow>
                        status room' = Completed \<or>
                        turnCount (gameData room') = turnCount (gameData room) + 1)))))"
    (is "?start \<and> (_ \<longrightarrow> (\<exists>h g. ?match h g))")
proof (rule conjI)
  have ws: "wellSeated room"
    using roomsOk_run[OF roomsOk_constructor assms(1)] assms(2) by (auto simp: roomsOk_def)
  show ?start
  proof (intro allI impI)
    fix now res s'
    assume a: "startGame r now s = Inr (res, s') \<and> success res"
    from startGame_success[OF _ _ assms(2), of now res s'] a
    obtain room' where r': "length (players_r room) = 2" "map_of (rooms s') r = Some room'"
      "status room' = InProgress" "players_r room' = players_r room"
      "currentTurn (gameData room') = Some (hostId room)" "turnCount (gameData room') = 1"
      by auto
    from ws r'(1) obtain h g where "players_r room = [h, g]" "hostId room = h" "guestId room = Some g"
      by (cases rule: wellSeated_cases) auto
    with r' show "\<exists>h g room'. players_r room = [h, g] \<and> hostId room = h \<and> guestId room = Some g \<and>
               map_of (rooms s') r = Some room' \<and> players_r room' = [h, g] \<and>
               status room' = InProgress \<and>
               currentTurn (gameData room') = Some h \<and> turnCount (gameData room') = 1"
      by auto
  qed
next
  show "status room = InProgress \<longrightarrow> (\<exists>h g. ?match h g)"
  proof
    assume ip: "status room = InProgress"
    from match_reachable[OF assms ip] obtain h g where
      hg: "players_r room = [h, g]" "hostId room = h" "guestId room = Some g"
          "1 \<le> turnCount (gameData room)"
          "currentTurn (gameData room) = Some (if odd (turnCount (gameData room)) then h else g)"
      by blast
    from turn_step[OF assms(2) hg(1,2,3)] ip hg
    have "?match h g" by blast
    then show "\<exists>h g. ?match h g" by blast
  qed
qed

text \<open>The theorem at the sample match: the start puts the turn at the host with counter
  1; the host's bolt passes the turn to the guest with counter 2.\<close>

theorem C2_turn_alternation_witness:
  "(\<exists>s room res s' room'.
      run opsReady constructor = Some s \<and> map_of (rooms s) ''AAAAAA'' = Some room \<and>
      players_r room = [''h'', ''g''] \<and> hostId room = ''h'' \<and> guestId room = Some ''g'' \<and>
      status room = Ready \<and> startGame ''AAAAAA'' 7 s = Inr (res, s') \<and> success res \<and>
      map_of (rooms s') ''AAAAAA'' = Some room' \<and> status room' = InProgress \<and>
      currentTurn (gameData room') = Some ''h'' \<and> turnCount (gameData room') = 1) \<and>
   (\<exists>s room res s' room'.
      run opsStarted constructor = Some s \<and> map_of (rooms s) ''AAAAAA'' = Some room \<and>
      players_r room = [''h'', ''g''] \<and> hostId room = ''h'' \<and> guestId room = Some ''g'' \<and>
      status room = InProgress \<and> currentTurn (gameData room) = Some ''h'' \<and>
      turnCount (gameData room) = 1 \<and>
      processGameAction ''h'' castBolt 8 s = Inr (res, s') \<and>
      map_of (rooms s') ''AAAAAA'' = Some room' \<and> status room' = InProgress \<and>
      currentTurn (gameData room') = Some ''g'' \<and> turnCount (gameData room') = 2)"
  (is "?A \<and> ?B")
proof (rule conjI)
  from ready_state obtain s room where
    s: "run opsReady constructor = Some s" "map_of (rooms s) ''AAAAAA'' = Some room"
       "status room = Ready" "players_r room = [''h'', ''g'']" "hostId room = ''h''"
       "guestId room = Some ''g''"
    by blast
  have "map_option status (roomAfter opsStarted ''AAAAAA'') = Some InProgress" by code_simp
  then obtain res s' where st: "startGame ''AAAAAA'' 7 s = Inr (res, s')"
    and st': "map_option status (map_of (rooms s') ''AAAAAA'') = Some InProgress"
    using s(1) by (auto simp: roomAfter_def opsStarted_def run_snoc split: sum.splits option.splits)
  have su: "success res"
  proof (rule ccontr)
    assume "\<not> success res"
    from startGame_failure[OF st this] st' s(2,3) show False by simp
  qed
  from C2_turn_alternation[OF s(1,2)] st su
  obtain room' where "map_of (rooms s') ''AAAAAA'' = Some room'"
    "status room' = InProgress" "currentTurn (gameData room') = Some (hostId room)"
    "turnCount (gameData room') = 1"
    by blast
  with s st su show ?A by auto
next
  from started_state obtain s room where
    s: "run opsStarted constructor = Some s" "map_of (rooms s) ''AAAAAA'' = Some room"
       "status room = InProgress" "players_r room = [''h'', ''g'']" "hostId room = ''h''"
       "guestId room = Some ''g''" "currentTurn (gameData room) = Some ''h''"
       "turnCount (gameData room) = 1"
       "map_of (playerToRoom s) ''h'' = Some ''AAAAAA''"
    by blast
  have "map_option status (roomAfter opsFirstMove ''AAAAAA'') = Some InProgress" by code_simp
  then obtain res s' where mv: "processGameAction ''h'' castBolt 8 s = Inr (res, s')"
    and st': "map_option status (map_of (rooms s') ''AAAAAA'') = Some InProgress"
    using s(1) by (auto simp: roomAfter_def opsFirstMove_def run_snoc split: sum.splits option.splits)
  have pl: "playerAfter opsStarted ''h'' \<noteq> None" "playerAfter opsStarted ''g'' \<noteq> None"
    by code_simp+
  then have pl': "map_of (players s) ''h'' \<noteq> None" "map_of (players s) ''g'' \<noteq> None"
    using s(1) by (simp_all add: playerAfter_def)
  have ty: "type_act castBolt = ''ability''" by (simp add: castBolt_def)
  from C2_turn_alternation[OF s(1,2)] s(3)
  obtain h g where hg: "players_r room = [h, g]"
    and step0: "\<forall>p a now res s'.
                  ''AAAAAA'' \<noteq> [] \<and> map_of (playerToRoom s) p = Some ''AAAAAA'' \<and>
                  processGameAction p a now s = Inr (res, s') \<longrightarrow>
                  (\<exists>room'. map_of (rooms s') ''AAAAAA'' = Some room' \<and> players_r room' = [h, g] \<and>
                     hostId room' = h \<and> guestId room' = Some g \<and>
                     (s' = s \<and> \<not> success res \<or>
                      currentTurn (gameData room) = Some p \<and> status room' = Completed \<and>
                        turnCount (gameData room') = turnCount (gameData room) \<and>
                        currentTurn (gameData room') = Some p \<or>
                      currentTurn (gameData room) = Some p \<and> status room' = InProgress \<and>
                        turnCount (gameData room') = turnCount (gameData room) + 1 \<and>
                        currentTurn (gameData room') = Some (if p = h then g else h)) \<and>
                     (currentTurn (gameData room) = Some p \<and> map_of (players s) p \<noteq> None \<and>
                      map_of (players s) (if p = h then g else h) \<noteq> None \<and>
                      (type_act a = ''ability'' \<or> type_act a = ''surrender'') \<longrightarrow>
                        status room' = Completed \<or>
                        turnCount (gameData room') = turnCount (gameData room) + 1))"
    by blast
  from hg s(4) have h: "h = ''h''" and g: "g = ''g''" by simp_all
  note step = step0[unfolded h g]
  from step[rule_format, of "''h''" castBolt 8 res s'] s(9) mv
  obtain room' where r': "map_of (rooms s') ''AAAAAA'' = Some room'"
    and dj: "s' = s \<and> \<not> success res \<or>
                currentTurn (gameData room) = Some ''h'' \<and> status room' = Completed \<and>
                  turnCount (gameData room') = turnCount (gameData room) \<and>
                  currentTurn (gameData room') = Some ''h'' \<or>
                currentTurn (gameData room) = Some ''h'' \<and> status room' = InProgress \<and>
                  turnCount (gameData room') = turnCount (gameData room) + 1 \<and>
                  currentTurn (gameData room') = Some (if ''h'' = ''h'' then ''g'' else ''h'')"
    and ch: "currentTurn (gameData room) = Some ''h'' \<and> map_of (players s) ''h'' \<noteq> None \<and>
                map_of (players s) (if ''h'' = ''h'' then ''g'' else ''h'') \<noteq> None \<and>
                (type_act castBolt = ''ability'' \<or> type_act castBolt = ''surrender'') \<longrightarrow>
                  status room' = Completed \<or>
                  turnCount (gameData room') = turnCount (gameData room) + 1"
    by auto
  have inp: "status room' = InProgress" using st' r' by simp
  with ch s(7) pl' ty have tc: "turnCount (gameData room') = 2" using s(8) by simp
  with dj inp s(2,8) r' have "currentTurn (gameData room') = Some ''g''" by auto
  with s mv r' inp tc show ?B by blast
qed

subsection \<open>Seats and the reverse index when removals are guarded\<close>

lemma players_depart:
  "depart p now room = (room', closed) \<Longrightarrow> players_r room' = filter (\<lambda>i. i \<noteq> p) (players_r room)"
  by (auto simp: depart_def settle_def Let_def split: if_splits list.splits)

lemma players_depart_fst:
  "players_r (fst (depart p now room)) = filter (\<lambda>i. i \<noteq> p) (players_r room)"
  using players_depart[of p now room] by (cases "depart p now room") auto

lemma playerToRoom_removePlayerFromRoom_none:
  "map_of (rooms s) r = None \<Longrightarrow> snd (removePlayerFromRoom p r now s) = s"
  by (simp add: removePlayerFromRoom_def)

lemma seatsIndexed_removePlayerFromRoom:
  assumes "seatsIndexed s" "map_of (playerToRoom s) p = Some r"
  shows "seatsIndexed (snd (removePlayerFromRoom p r now s)) \<and>
         unseated p (snd (removePlayerFromRoom p r now s))"
proof (cases "map_of (rooms s) r")
  case None
  have "unseated p s"
    unfolding unseated_def
  proof (intro allI impI)
    fix k room assume k: "map_of (rooms s) k = Some room"
    show "p \<notin> set (players_r room)"
    proof
      assume "p \<in> set (players_r room)"
      with assms(1) k have "map_of (playerToRoom s) p = Some k" by (auto simp: seatsIndexed_def)
      with assms(2) None k show False by simp
    qed
  qed
  then show ?thesis using None assms(1) by (simp add: playerToRoom_removePlayerFromRoom_none)
next
  case (Some room)
  let ?s' = "snd (removePlayerFromRoom p r now s)"
  have idx: "map_of (playerToRoom ?s') q = (if q = p then None else map_of (playerToRoom s) q)" for q
    using Some by (simp add: playerToRoom_removePlayerFromRoom)
  have seat: "q \<in> set (players_r room'') \<Longrightarrow> q \<noteq> p \<and> map_of (playerToRoom s) q = Some k"
    if "map_of (rooms ?s') k = Some room''" for k room'' q
  proof (cases "k = r")
    case True
    assume q: "q \<in> set (players_r room'')"
    from that True Some have "room'' = fst (depart p now room)"
      by (auto simp: rooms_removePlayerFromRoom split: if_splits)
    with q have "q \<noteq> p" "q \<in> set (players_r room)" by (auto simp: players_depart_fst)
    with assms(1) Some True show ?thesis by (auto simp: seatsIndexed_def)
  next
    case False
    assume q: "q \<in> set (players_r room'')"
    from that False have "map_of (rooms s) k = Some room''"
      by (simp add: rooms_removePlayerFromRoom)
    with assms(1) q have "map_of (playerToRoom s) q = Some k" by (auto simp: seatsIndexed_def)
    with assms(2) False show ?thesis by auto
  qed
  show ?thesis
    unfolding seatsIndexed_def unseated_def
    using seat idx by (metis (no_types, lifting))
qed


lemma seatsIndexed_unseated:
  "seatsIndexed s \<Longrightarrow> map_of (playerToRoom s) p = None \<Longrightarrow> unseated p s"
  by (auto simp: seatsIndexed_def unseated_def)

lemma seatsIndexed_leaveAllRooms:
  assumes "seatsIndexed s"
  shows "seatsIndexed (snd (leaveAllRooms p now s)) \<and> unseated p (snd (leaveAllRooms p now s))"
proof (cases "map_of (playerToRoom s) p")
  case None
  then show ?thesis using assms seatsIndexed_unseated by (simp add: leaveAllRooms_def)
next
  case (Some r)
  then show ?thesis using seatsIndexed_removePlayerFromRoom[OF assms Some]
    by (simp add: leaveAllRooms_def)
qed

lemma seatsIndexed_seat:
  assumes "seatsIndexed s1" "unseated p s1"
    and "\<And>q. q \<in> set (players_r room') \<Longrightarrow>
            q = p \<or> (\<exists>room1. map_of (rooms s1) r = Some room1 \<and> q \<in> set (players_r room1))"
  shows "seatsIndexed (s1 \<lparr> rooms := AList.update r room' (rooms s1),
                            playerToRoom := AList.update p r (playerToRoom s1) \<rparr>)"
  unfolding seatsIndexed_def
proof (intro allI impI)
  fix k room q
  assume k: "map_of (rooms (s1 \<lparr> rooms := AList.update r room' (rooms s1),
                            playerToRoom := AList.update p r (playerToRoom s1) \<rparr>)) k = Some room"
    and q: "q \<in> set (players_r room)"
  show "map_of (playerToRoom (s1 \<lparr> rooms := AList.update r room' (rooms s1),
                            playerToRoom := AList.update p r (playerToRoom s1) \<rparr>)) q = Some k"
  proof (cases "k = r")
    case True
    with k have "room = room'" by (simp add: update_conv')
    with assms(3)[of q] q consider "q = p"
      | room1 where "map_of (rooms s1) r = Some room1" "q \<in> set (players_r room1)"
      by blast
    then show ?thesis
    proof cases
      case 1
      then show ?thesis using True by (simp add: update_conv')
    next
      case 2
      with assms(1) have "map_of (playerToRoom s1) q = Some r" by (auto simp: seatsIndexed_def)
      then show ?thesis using True by (simp add: update_conv')
    qed
  next
    case False
    with k have k1: "map_of (rooms s1) k = Some room" by (simp add: update_conv')
    with assms(2) q have "q \<noteq> p" by (auto simp: unseated_def)
    moreover from assms(1) k1 q have "map_of (playerToRoom s1) q = Some k"
      by (auto simp: seatsIndexed_def)
    ultimately show ?thesis by (simp add: update_conv')
  qed
qed

lemma seatsIndexed_index_only:
  assumes "seatsIndexed s1" "unseated p s1"
  shows "seatsIndexed (s1 \<lparr> playerToRoom := AList.update p r (playerToRoom s1) \<rparr>)"
  using assms by (auto simp: seatsIndexed_def unseated_def update_conv')

lemma rostersDistinct_update:
  "rostersDistinct s1 \<Longrightarrow> distinct (players_r room') \<Longrightarrow>
   rostersDistinct (s1 \<lparr> rooms := AList.update r room' (rooms s1), playerToRoom := ix \<rparr>)"
  by (auto simp: rostersDistinct_def update_conv')

lemma rostersDistinct_removePlayerFromRoom:
  "rostersDistinct s \<Longrightarrow> rostersDistinct (snd (removePlayerFromRoom p r now s))"
  unfolding rostersDistinct_def rooms_removePlayerFromRoom
  by (auto simp: players_depart_fst split: if_splits option.splits)

lemma rostersDistinct_leaveAllRooms:
  "rostersDistinct s \<Longrightarrow> rostersDistinct (snd (leaveAllRooms p now s))"
  by (auto simp: leaveAllRooms_def rostersDistinct_removePlayerFromRoom split: option.splits)

lemma seatsIndexed_createRoom:
  assumes "seatsIndexed s" "rostersDistinct s" "createRoom h rd rnd now s = Some (ro, s')"
  shows "seatsIndexed s' \<and> rostersDistinct s'"
proof -
  let ?s1 = "snd (leaveAllRooms h now s)"
  from seatsIndexed_leaveAllRooms[OF assms(1), of h now]
  have s1: "seatsIndexed ?s1" "unseated h ?s1" by simp_all
  have d1: "rostersDistinct ?s1" using assms(2) by (rule rostersDistinct_leaveAllRooms)
  note cr = assms(3)
  show ?thesis
  proof (cases "map_of (players ?s1) h")
    case None
    then show ?thesis using cr s1 d1
      by (auto simp: createRoom_def Let_def split: option.splits if_splits)
  next
    case (Some host)
    from cr Some obtain rid room where
      s': "s' = ?s1 \<lparr> rooms := AList.update rid room (rooms ?s1),
                        playerToRoom := AList.update h rid (playerToRoom ?s1) \<rparr>"
      and pr: "players_r room = [h]"
      by (auto simp: createRoom_def Let_def split: option.splits if_splits)
    have "seatsIndexed s'" unfolding s'
      by (rule seatsIndexed_seat[OF s1]) (simp add: pr)
    moreover have "rostersDistinct s'" unfolding s'
      by (rule rostersDistinct_update[OF d1]) (simp add: pr)
    ultimately show ?thesis by simp
  qed
qed

lemma seatsIndexed_addPlayerToRoom:
  assumes "seatsIndexed s" "rostersDistinct s"
  shows "seatsIndexed (snd (addPlayerToRoom p r now s)) \<and>
         rostersDistinct (snd (addPlayerToRoom p r now s))"
proof (cases "snd (addPlayerToRoom p r now s) = s")
  case True
  then show ?thesis using assms by simp
next
  case False
  let ?s1 = "snd (leaveAllRooms p now s)"
  from seatsIndexed_leaveAllRooms[OF assms(1), of p now]
  have s1: "seatsIndexed ?s1" "unseated p ?s1" by simp_all
  have d1: "rostersDistinct ?s1" using assms(2) by (rule rostersDistinct_leaveAllRooms)
  from False obtain room where room: "map_of (rooms s) r = Some room"
    by (auto simp: addPlayerToRoom_def split: option.splits)
  define al where "al = (map_of (playerToRoom s) p = Some r)"
  define room1 where "room1 = (if al then fst (depart p now room) else room)"
  define detached where "detached = (if al then snd (depart p now room) else False)"
  define room4 where "room4 =
     (let room2 = room1 \<lparr> players_r := players_r room1 @ [p] \<rparr>;
          room3 = (if length (players_r room2) = 2 then room2 \<lparr> guestId := Some p \<rparr> else room2)
      in room3 \<lparr> lastActivity := now \<rparr>)"
  have s': "snd (addPlayerToRoom p r now s) =
              ?s1 \<lparr> rooms := (if detached then rooms ?s1 else AList.update r room4 (rooms ?s1)),
                     playerToRoom := AList.update p r (playerToRoom ?s1) \<rparr>"
    using False room
    by (auto simp: addPlayerToRoom_def Let_def al_def room1_def detached_def room4_def
             split: option.splits if_splits prod.splits)
  have p4: "players_r room4 = players_r room1 @ [p]"
    by (simp add: room4_def Let_def)
  have r1: "map_of (rooms ?s1) r = Some room1" if "\<not> detached"
  proof (cases al)
    case True
    then have "?s1 = snd (removePlayerFromRoom p r now s)"
      by (simp add: leaveAllRooms_def al_def)
    then show ?thesis using that True room
      by (simp add: rooms_removePlayerFromRoom room1_def detached_def)
  next
    case False
    have "map_of (rooms ?s1) r = map_of (rooms s) r"
    proof (cases "map_of (playerToRoom s) p")
      case None
      then show ?thesis by (simp add: leaveAllRooms_def)
    next
      case (Some r0)
      with False have "r0 \<noteq> r" by (simp add: al_def)
      then show ?thesis using Some by (simp add: leaveAllRooms_def rooms_removePlayerFromRoom)
    qed
    then show ?thesis using False room by (simp add: room1_def)
  qed
  show ?thesis
  proof (cases detached)
    case True
    have "seatsIndexed (?s1 \<lparr> playerToRoom := AList.update p r (playerToRoom ?s1) \<rparr>)"
      by (rule seatsIndexed_index_only[OF s1])
    moreover have "rostersDistinct (?s1 \<lparr> playerToRoom := AList.update p r (playerToRoom ?s1) \<rparr>)"
      using d1 by (simp add: rostersDistinct_def)
    ultimately show ?thesis unfolding s' using True by simp
  next
    case nd: False
    have "seatsIndexed (?s1 \<lparr> rooms := AList.update r room4 (rooms ?s1),
                             playerToRoom := AList.update p r (playerToRoom ?s1) \<rparr>)"
      by (rule seatsIndexed_seat[OF s1]) (use r1[OF nd] p4 in auto)
    moreover have "p \<notin> set (players_r room1)"
      using s1(2) r1[OF nd] by (auto simp: unseated_def)
    then have "distinct (players_r room4)"
      using d1 r1[OF nd] p4 by (auto simp: rostersDistinct_def)
    then have "rostersDistinct (?s1 \<lparr> rooms := AList.update r room4 (rooms ?s1),
                             playerToRoom := AList.update p r (playerToRoom ?s1) \<rparr>)"
      by (rule rostersDistinct_update[OF d1])
    ultimately show ?thesis unfolding s' using nd by simp
  qed
qed

lemma seatsIndexed_evolve:
  assumes "seatsIndexed s" "rostersDistinct s" "roomsEvolve s s'" "playerToRoom s' = playerToRoom s"
  shows "seatsIndexed s' \<and> rostersDistinct s'"
proof -
  have same: "\<exists>room. map_of (rooms s) k = Some room \<and> players_r room' = players_r room"
    if "map_of (rooms s') k = Some room'" for k room'
    using assms(3) that unfolding roomsEvolve_def evolves_def by blast
  have "map_of (playerToRoom s') p = Some k"
    if "map_of (rooms s') k = Some room'" "p \<in> set (players_r room')" for k room' p
  proof -
    from same[OF that(1)] obtain room where "map_of (rooms s) k = Some room"
      "players_r room' = players_r room" by blast
    with assms(1,4) that(2) show ?thesis by (auto simp: seatsIndexed_def)
  qed
  moreover have "distinct (players_r room')" if "map_of (rooms s') k = Some room'" for k room'
  proof -
    from same[OF that] obtain room where "map_of (rooms s) k = Some room"
      "players_r room' = players_r room" by blast
    with assms(2) show ?thesis by (auto simp: rostersDistinct_def)
  qed
  ultimately show ?thesis by (auto simp: seatsIndexed_def rostersDistinct_def)
qed

lemma playerToRoom_setPlayerCharacter [simp]:
  "playerToRoom (snd (setPlayerCharacter p c now s)) = playerToRoom s"
  by (auto simp: setPlayerCharacter_def updatePlayer_def Let_def split: option.splits prod.splits)

lemma playerToRoom_setPlayerReady:
  "setPlayerReady p b now s = Inr (res, s') \<Longrightarrow> playerToRoom s' = playerToRoom s"
  by (auto simp: setPlayerReady_def updatePlayer_def Let_def
           split: option.splits prod.splits if_splits sum.splits)

lemma playerToRoom_startGame:
  "startGame r now s = Inr (res, s') \<Longrightarrow> playerToRoom s' = playerToRoom s"
  by (auto simp: startGame_def split: option.splits if_splits)

lemma playerToRoom_finishAction:
  "finishAction ai ti r now res0 s1 = Inr (res, s') \<Longrightarrow> playerToRoom s' = playerToRoom s1"
  by (auto simp: finishAction_def Let_def split: option.splits if_splits)

lemma playerToRoom_processAbilityUse [simp]:
  "playerToRoom (snd (processAbilityUse ai ap ti tp a r s)) = playerToRoom s"
  by (auto simp: processAbilityUse_def Let_def split: option.splits)

lemma playerToRoom_processSurrender [simp]:
  "playerToRoom (snd (processSurrender ai ap r s)) = playerToRoom s"
  by (auto simp: processSurrender_def Let_def)

lemma playerToRoom_processGameAction:
  assumes "processGameAction p a now s = Inr (res, s')"
  shows "playerToRoom s' = playerToRoom s"
proof -
  have ab: "playerToRoom s' = playerToRoom s"
    if "processAbilityUse p ap ti tp a r s = (res0, s1)" "finishAction p ti r now res0 s1 = Inr (res, s')"
    for ap ti tp r res0 s1
    using playerToRoom_finishAction[OF that(2)] playerToRoom_processAbilityUse[of p ap ti tp a r s] that(1)
    by simp
  have su: "playerToRoom s' = playerToRoom s"
    if "processSurrender p ap r s = (res0, s1)" "finishAction p ti r now res0 s1 = Inr (res, s')"
    for ap ti r res0 s1
    using playerToRoom_finishAction[OF that(2)] playerToRoom_processSurrender[of p ap r s] that(1)
    by simp
  show ?thesis
    using assms ab su unfolding processGameAction_def
    by (auto split: option.splits if_splits prod.splits)
qed

lemma seatsIndexed_cleanupInactive:
  assumes "seatsIndexed s" "rostersDistinct s" "keysOk s"
  shows "seatsIndexed (cleanupInactive rt pt now s) \<and> rostersDistinct (cleanupInactive rt pt now s)"
proof -
  let ?s' = "cleanupInactive rt pt now s"
  have kr: "distinct (map fst (rooms s))" using assms(3) by (simp add: keysOk_def)
  have rm: "map_of (rooms ?s') k = Some room \<Longrightarrow>
              map_of (rooms s) k = Some room \<and> \<not> now - lastActivity room > rt" for k room
    using kr by (auto simp: cleanupInactive_def Let_def sweepRooms_rooms map_of_eq_Some_iff split: if_splits)
  have ix: "map_of (playerToRoom ?s') p =
     (if (\<exists>k room. (k, room) \<in> set (rooms s) \<and> now - lastActivity room > rt \<and> p \<in> set (players_r room))
      then None else map_of (playerToRoom s) p)" for p
    by (simp add: cleanupInactive_def Let_def sweepRooms_playerToRoom)
  have "map_of (playerToRoom ?s') p = Some k"
    if "map_of (rooms ?s') k = Some room" "p \<in> set (players_r room)" for k room p
  proof -
    from rm[OF that(1)] have k: "map_of (rooms s) k = Some room" "\<not> now - lastActivity room > rt"
      by simp_all
    with assms(1) that(2) have pk: "map_of (playerToRoom s) p = Some k" by (auto simp: seatsIndexed_def)
    have "\<not> (\<exists>k' room'. (k', room') \<in> set (rooms s) \<and> now - lastActivity room' > rt \<and>
              p \<in> set (players_r room'))"
    proof
      assume "\<exists>k' room'. (k', room') \<in> set (rooms s) \<and> now - lastActivity room' > rt \<and>
              p \<in> set (players_r room')"
      then obtain k' room' where e: "(k', room') \<in> set (rooms s)" "now - lastActivity room' > rt"
        "p \<in> set (players_r room')" by blast
      from e(1) kr have "map_of (rooms s) k' = Some room'" by (simp add: map_of_eq_Some_iff)
      with assms(1) e(3) have "map_of (playerToRoom s) p = Some k'" by (auto simp: seatsIndexed_def)
      with pk have "k' = k" by simp
      with \<open>map_of (rooms s) k' = Some room'\<close> k e(2) show False by simp
    qed
    then show ?thesis using pk by (simp add: ix)
  qed
  moreover have "distinct (players_r room)" if "map_of (rooms ?s') k = Some room" for k room
    using rm[OF that] assms(2) by (auto simp: rostersDistinct_def)
  ultimately show ?thesis by (auto simp: seatsIndexed_def rostersDistinct_def)
qed

lemma seatsIndexed_unregisterPlayer:
  assumes "seatsIndexed s" "rostersDistinct s"
  shows "seatsIndexed (unregisterPlayer p now s) \<and> rostersDistinct (unregisterPlayer p now s)"
proof -
  let ?s1 = "snd (leaveAllRooms p now s)"
  from seatsIndexed_leaveAllRooms[OF assms(1), of p now]
  have s1: "seatsIndexed ?s1" "unseated p ?s1" by simp_all
  have d1: "rostersDistinct ?s1" using assms(2) by (rule rostersDistinct_leaveAllRooms)
  have eq: "unregisterPlayer p now s =
      ?s1 \<lparr> players := AList.delete p (players ?s1),
            playerToRoom := AList.delete p (playerToRoom ?s1) \<rparr>"
    by (simp add: unregisterPlayer_def leaveAllRooms_def Let_def split: option.splits)
  show ?thesis
    unfolding eq using s1 d1
    by (auto simp: seatsIndexed_def rostersDistinct_def unseated_def delete_conv')
qed

lemma seatsOk_exec:
  assumes "seatsIndexed s" "rostersDistinct s" "keysOk s" "admissible s c" "exec now c s = Some s'"
  shows "seatsIndexed s' \<and> rostersDistinct s'"
proof (cases c)
  case (RegisterPlayer p n)
  with assms(5) have "rooms s' = rooms s" "playerToRoom s' = playerToRoom s"
    by (auto simp: registerPlayer_def Let_def)
  then show ?thesis using assms(1,2) by (simp add: seatsIndexed_def rostersDistinct_def)
next
  case (UnregisterPlayer p)
  with assms(5) have "s' = unregisterPlayer p now s" by simp
  then show ?thesis using seatsIndexed_unregisterPlayer[OF assms(1,2)] by simp
next
  case (CreateRoom h rd rnd)
  with assms(5) obtain ro where "createRoom h rd rnd now s = Some (ro, s')" by auto
  then show ?thesis by (rule seatsIndexed_createRoom[OF assms(1,2)])
next
  case (AddPlayerToRoom p k)
  with assms(5) have "s' = snd (addPlayerToRoom p k now s)" by simp
  then show ?thesis using seatsIndexed_addPlayerToRoom[OF assms(1,2)] by simp
next
  case (RemovePlayerFromRoom p k)
  with assms(5) have e: "s' = snd (removePlayerFromRoom p k now s)" by simp
  from RemovePlayerFromRoom assms(4) have "map_of (playerToRoom s) p = Some k"
    by (simp add: admissible_def)
  from seatsIndexed_removePlayerFromRoom[OF assms(1) this, of now]
    rostersDistinct_removePlayerFromRoom[OF assms(2), of p k now]
  show ?thesis unfolding e by simp
next
  case (LeaveAllRooms p)
  with assms(5) have e: "s' = snd (leaveAllRooms p now s)" by simp
  from seatsIndexed_leaveAllRooms[OF assms(1), of p now]
    rostersDistinct_leaveAllRooms[OF assms(2), of p now]
  show ?thesis unfolding e by simp
next
  case (SetPlayerCharacter p ch)
  with assms(5) have e: "s' = snd (setPlayerCharacter p ch now s)" by simp
  show ?thesis unfolding e
    by (rule seatsIndexed_evolve[OF assms(1,2) roomsEvolve_setPlayerCharacter
          playerToRoom_setPlayerCharacter])
next
  case (SetPlayerReady p b)
  with assms(5) obtain res where e: "setPlayerReady p b now s = Inr (res, s')"
    by (auto split: sum.splits prod.splits)
  show ?thesis
    by (rule seatsIndexed_evolve[OF assms(1,2) roomsEvolve_setPlayerReady[OF e]
          playerToRoom_setPlayerReady[OF e]])
next
  case (StartGame k)
  with assms(5) obtain res where e: "startGame k now s = Inr (res, s')"
    by (auto split: sum.splits prod.splits)
  show ?thesis
    by (rule seatsIndexed_evolve[OF assms(1,2) roomsEvolve_startGame[OF e]
          playerToRoom_startGame[OF e]])
next
  case (ProcessGameAction p a)
  with assms(5) obtain res where e: "processGameAction p a now s = Inr (res, s')"
    by (auto split: sum.splits prod.splits)
  show ?thesis
    by (rule seatsIndexed_evolve[OF assms(1,2) roomsEvolve_processGameAction[OF e]
          playerToRoom_processGameAction[OF e]])
next
  case (CleanupInactive rt pt)
  with assms(5) have e: "s' = cleanupInactive rt pt now s" by simp
  show ?thesis unfolding e by (rule seatsIndexed_cleanupInactive[OF assms(1,2,3)])
qed

lemma seatsOk_run:
  "seatsIndexed s \<Longrightarrow> rostersDistinct s \<Longrightarrow> keysOk s \<Longrightarrow> guarded cs s \<Longrightarrow>
   run cs s = Some s' \<Longrightarrow> seatsIndexed s' \<and> rostersDistinct s'"
proof (induction cs arbitrary: s)
  case Nil
  then show ?case by simp
next
  case (Cons c cs)
  obtain now o' where c: "c = (now, o')" by (cases c)
  from Cons.prems(5) c obtain s1 where s1: "exec now o' s = Some s1" "run cs s1 = Some s'"
    by (auto split: option.splits)
  from Cons.prems(4) c s1(1) have g: "admissible s o'" "guarded cs s1" by simp_all
  from seatsOk_exec[OF Cons.prems(1,2,3) g(1) s1(1)] keysOk_exec[OF Cons.prems(3) s1(1)]
    Cons.IH[OF _ _ _ g(2) s1(2)] show ?case by blast
qed

lemma seatsOk_reachable:
  assumes "run cs constructor = Some s" "guarded cs constructor"
  shows "seatsIndexed s \<and> rostersDistinct s"
proof -
  have "seatsIndexed constructor" "rostersDistinct constructor" "keysOk constructor"
    by (simp_all add: seatsIndexed_def rostersDistinct_def keysOk_def constructor_def)
  from seatsOk_run[OF this assms(2,1)] show ?thesis .
qed

subsection \<open>C4: roster, host and guest of every room in the registry\<close>

text \<open>
  C4, as amended. After every sequence of operations of the manager, started from the empty
  manager (registering and unregistering, creating, joining and leaving rooms with any
  arguments, and every other operation as well), every room in the registry has a roster
  of at most two entries that is not empty, its \<open>hostId\<close> is the first entry of the roster,
  its \<open>guestId\<close> is set exactly when the roster has two entries, and is then the second
  entry of the roster. When moreover every \<^verbatim>\<open>removePlayerFromRoom\<close> of the sequence names
  the room that the reverse index records for the player (the guard of the controller's
  leave handler), no roster holds a player twice, so that the guest is the occupant who
  is not the host, and the reverse index maps every roster entry to the room.
\<close>

theorem C4_roster_shape:
  assumes "run cs constructor = Some s" "map_of (rooms s) r = Some room"
  shows "length (players_r room) \<le> 2 \<and> players_r room \<noteq> [] \<and>
         hostId room = players_r room ! 0 \<and>
         (guestId room \<noteq> None) = (length (players_r room) = 2) \<and>
         (length (players_r room) = 2 \<longrightarrow> guestId room = Some (players_r room ! 1)) \<and>
         (guarded cs constructor \<longrightarrow>
            distinct (players_r room) \<and>
            (length (players_r room) = 2 \<longrightarrow> guestId room \<noteq> Some (hostId room)) \<and>
            (\<forall>p. p \<in> set (players_r room) \<longrightarrow> map_of (playerToRoom s) p = Some r))"
proof -
  have "roomsOk s" using roomsOk_run[OF roomsOk_constructor assms(1)] .
  then have ws: "wellSeated room" using assms(2) by (auto simp: roomsOk_def)
  have g: "distinct (players_r room) \<and>
           (\<forall>p. p \<in> set (players_r room) \<longrightarrow> map_of (playerToRoom s) p = Some r)"
    if "guarded cs constructor"
    using seatsOk_reachable[OF assms(1) that] assms(2)
    by (auto simp: seatsIndexed_def rostersDistinct_def)
  from ws show ?thesis
  proof (cases rule: wellSeated_cases)
    case (one h)
    then show ?thesis using g by auto
  next
    case (two h g')
    then show ?thesis using g by auto
  qed
qed

text \<open>The theorem at the lobby of two players: the roster is host, guest.\<close>

theorem C4_roster_shape_witness:
  "\<exists>s room. run opsLobby constructor = Some s \<and> map_of (rooms s) ''AAAAAA'' = Some room \<and>
     guarded opsLobby constructor \<and>
     players_r room = [''h'', ''g''] \<and>
     length (players_r room) \<le> 2 \<and> players_r room \<noteq> [] \<and>
     hostId room = players_r room ! 0 \<and> guestId room \<noteq> None \<and>
     guestId room = Some (players_r room ! 1) \<and> guestId room \<noteq> Some (hostId room) \<and>
     map_of (playerToRoom s) ''h'' = Some ''AAAAAA'' \<and>
     map_of (playerToRoom s) ''g'' = Some ''AAAAAA''"
proof -
  have "map_option players_r (roomAfter opsLobby ''AAAAAA'') = Some [''h'', ''g'']"
    by code_simp
  then obtain s room where s: "run opsLobby constructor = Some s"
    and room: "map_of (rooms s) ''AAAAAA'' = Some room" and ps: "players_r room = [''h'', ''g'']"
    by (auto simp: roomAfter_def split: option.splits)
  have gd: "guarded opsLobby constructor" by code_simp
  from C4_roster_shape[OF s room] gd ps s room show ?thesis
    by (intro exI[of _ s] exI[of _ room]) simp
qed

text \<open>
  C4 as stated fails where it says that the guest is the occupant who is not the host: a
  player who hosts a room, leaves a room it is not in (which deletes its reverse-index
  entry) and then joins its own room is seated twice, and is host and guest at once.
\<close>

theorem C4_guest_is_host_counterexample:
  "map_option players_r (roomAfter opsSeatedTwice ''AAAAAA'') = Some [''p'', ''p''] \<and>
   map_option hostId (roomAfter opsSeatedTwice ''AAAAAA'') = Some ''p'' \<and>
   map_option guestId (roomAfter opsSeatedTwice ''AAAAAA'') = Some (Some ''p'')"
  by code_simp

subsection \<open>C5: an occupant leaves a match in progress\<close>

text \<open>The state in which the player seated twice has started a match in its room.\<close>

lemma solo_state:
  "\<exists>s room. run opsSoloMatch constructor = Some s \<and> map_of (rooms s) ''AAAAAA'' = Some room \<and>
     status room = InProgress \<and> players_r room = [''p'', ''p''] \<and> hostId room = ''p'' \<and>
     guestId room = Some ''p'' \<and> map_of (playerToRoom s) ''p'' = Some ''AAAAAA''"
proof -
  have "map_option status (roomAfter opsSoloMatch ''AAAAAA'') = Some InProgress"
       "map_option players_r (roomAfter opsSoloMatch ''AAAAAA'') = Some [''p'', ''p'']"
       "map_option hostId (roomAfter opsSoloMatch ''AAAAAA'') = Some ''p''"
       "map_option guestId (roomAfter opsSoloMatch ''AAAAAA'') = Some (Some ''p'')"
       "indexAfter opsSoloMatch ''p'' = Some ''AAAAAA''"
    by code_simp+
  then show ?thesis
    by (auto simp: roomAfter_def indexAfter_def split: option.splits)
qed

text \<open>
  C5, as amended. In a room in progress whose roster has two entries (the host first and
  the guest second, as every room of the registry has them), \<^verbatim>\<open>removePlayerFromRoom\<close> of
  an occupant does one of two things. When the two entries are different players, it
  succeeds and ends the match in the same call: the status is \<open>Completed\<close>, the end
  timestamp is the time of the call, and the winner is the occupant who stays, who is also
  the only roster entry and the host afterwards (the guest is promoted when the host
  departs). When both entries are the same player, it empties the roster and deletes the
  room from the registry, so that no completed status, end timestamp or winner is
  recorded. The two entries are different players in every state that a sequence of
  operations with guarded removals reaches from the empty manager. In both cases the
  reverse-index entry of the departing player is deleted, and when the reverse index names
  the room for the departing player, the leave handler gives the same state and the
  disconnect handler the same rooms.
\<close>

theorem C5_departure_forfeits:
  assumes "map_of (rooms s) r = Some room" "status room = InProgress"
    and "players_r room = [h, g]" "hostId room = h" "guestId room = Some g"
    and "p = h \<or> p = g"
  shows "(h \<noteq> g \<longrightarrow>
            fst (removePlayerFromRoom p r now s) = ok \<and>
            (\<exists>room'. map_of (rooms (snd (removePlayerFromRoom p r now s))) r = Some room' \<and>
               status room' = Completed \<and>
               endTime (gameData room') = Some now \<and>
               winner (gameData room') = Some (if p = g then h else g) \<and>
               players_r room' = [if p = g then h else g] \<and>
               hostId room' = (if p = g then h else g) \<and>
               guestId room' = None)) \<and>
         (h = g \<longrightarrow>
            fst (removePlayerFromRoom p r now s) = ok \<lparr> roomClosed := True \<rparr> \<and>
            map_of (rooms (snd (removePlayerFromRoom p r now s))) r = None) \<and>
         (\<forall>cs. run cs constructor = Some s \<and> guarded cs constructor \<longrightarrow> h \<noteq> g) \<and>
         (map_of (playerToRoom s) p = Some r \<longrightarrow>
            handleLeaveRoom p (Some r) now s = snd (removePlayerFromRoom p r now s) \<and>
            rooms (handleUserDisconnection p now s)
              = rooms (snd (removePlayerFromRoom p r now s))) \<and>
         map_of (playerToRoom (snd (removePlayerFromRoom p r now s))) p = None"
proof -
  have two: "depart p now room =
            (room \<lparr> players_r := [if p = g then h else g],
                    hostId := (if p = g then h else g),
                    guestId := None,
                    status := Completed,
                    gameData := (gameData room) \<lparr> endTime := Some now,
                                                  winner := Some (if p = g then h else g) \<rparr>,
                    lastActivity := now \<rparr>, False)" if "h \<noteq> g"
    using assms that by (auto simp: depart_def settle_def Let_def)
  have one: "snd (depart p now room)" if "h = g"
    using assms that by (auto simp: depart_def Let_def)
  have ne: "h \<noteq> g" if "run cs constructor = Some s" "guarded cs constructor" for cs
  proof -
    from seatsOk_reachable[OF that] have "rostersDistinct s" by simp
    with assms(1) have "distinct (players_r room)" unfolding rostersDistinct_def by blast
    with assms(3) show ?thesis by simp
  qed
  have A: "h \<noteq> g \<longrightarrow>
            fst (removePlayerFromRoom p r now s) = ok \<and>
            (\<exists>room'. map_of (rooms (snd (removePlayerFromRoom p r now s))) r = Some room' \<and>
               status room' = Completed \<and>
               endTime (gameData room') = Some now \<and>
               winner (gameData room') = Some (if p = g then h else g) \<and>
               players_r room' = [if p = g then h else g] \<and>
               hostId room' = (if p = g then h else g) \<and>
               guestId room' = None)"
    using assms(1) two
    by (simp add: rooms_removePlayerFromRoom fst_removePlayerFromRoom)
  have B: "h = g \<longrightarrow>
            fst (removePlayerFromRoom p r now s) = ok \<lparr> roomClosed := True \<rparr> \<and>
            map_of (rooms (snd (removePlayerFromRoom p r now s))) r = None"
    using assms(1) one
    by (simp add: rooms_removePlayerFromRoom fst_removePlayerFromRoom)
  have C: "\<forall>cs. run cs constructor = Some s \<and> guarded cs constructor \<longrightarrow> h \<noteq> g"
    using ne by blast
  have D: "map_of (playerToRoom s) p = Some r \<longrightarrow>
            handleLeaveRoom p (Some r) now s = snd (removePlayerFromRoom p r now s) \<and>
            rooms (handleUserDisconnection p now s)
              = rooms (snd (removePlayerFromRoom p r now s))"
    using rooms_handleUserDisconnection[OF _ assms(1), of p now]
      rooms_handleLeaveRoom[of s p r now] by simp
  have E: "map_of (playerToRoom (snd (removePlayerFromRoom p r now s))) p = None"
    using assms(1) by (simp add: playerToRoom_removePlayerFromRoom)
  from A B C D E show ?thesis by blast
qed

text \<open>The theorem at the started sample match, which a guarded sequence reaches, for the
  guest leaving and for the host leaving; and at the match of the player seated twice.\<close>

theorem C5_departure_forfeits_witness:
  "(\<exists>s room. run opsStarted constructor = Some s \<and> guarded opsStarted constructor \<and>
     map_of (rooms s) ''AAAAAA'' = Some room \<and>
     status room = InProgress \<and> players_r room = [''h'', ''g''] \<and> hostId room = ''h'' \<and>
     guestId room = Some ''g'' \<and> map_of (playerToRoom s) ''g'' = Some ''AAAAAA'' \<and>
     map_of (playerToRoom s) ''h'' = Some ''AAAAAA'' \<and>
     fst (removePlayerFromRoom ''g'' ''AAAAAA'' 9 s) = ok \<and>
     handleLeaveRoom ''g'' (Some ''AAAAAA'') 9 s = snd (removePlayerFromRoom ''g'' ''AAAAAA'' 9 s) \<and>
     rooms (handleUserDisconnection ''g'' 9 s)
       = rooms (snd (removePlayerFromRoom ''g'' ''AAAAAA'' 9 s)) \<and>
     (\<exists>room'. map_of (rooms (snd (removePlayerFromRoom ''g'' ''AAAAAA'' 9 s))) ''AAAAAA'' = Some room' \<and>
        status room' = Completed \<and> endTime (gameData room') = Some 9 \<and>
        winner (gameData room') = Some ''h'' \<and> players_r room' = [''h''] \<and>
        hostId room' = ''h'' \<and> guestId room' = None) \<and>
     (\<exists>room'. map_of (rooms (snd (removePlayerFromRoom ''h'' ''AAAAAA'' 9 s))) ''AAAAAA'' = Some room' \<and>
        status room' = Completed \<and> endTime (gameData room') = Some 9 \<and>
        winner (gameData room') = Some ''g'' \<and> players_r room' = [''g''] \<and>
        hostId room' = ''g'' \<and> guestId room' = None)) \<and>
   (\<exists>s room. run opsSoloMatch constructor = Some s \<and>
     map_of (rooms s) ''AAAAAA'' = Some room \<and>
     status room = InProgress \<and> players_r room = [''p'', ''p''] \<and> hostId room = ''p'' \<and>
     guestId room = Some ''p'' \<and> map_of (playerToRoom s) ''p'' = Some ''AAAAAA'' \<and>
     fst (removePlayerFromRoom ''p'' ''AAAAAA'' 9 s) = ok \<lparr> roomClosed := True \<rparr> \<and>
     handleLeaveRoom ''p'' (Some ''AAAAAA'') 9 s = snd (removePlayerFromRoom ''p'' ''AAAAAA'' 9 s) \<and>
     map_of (rooms (snd (removePlayerFromRoom ''p'' ''AAAAAA'' 9 s))) ''AAAAAA'' = None \<and>
     map_of (playerToRoom (snd (removePlayerFromRoom ''p'' ''AAAAAA'' 9 s))) ''p'' = None)"
proof -
  from started_state obtain s room where
    s: "run opsStarted constructor = Some s" "map_of (rooms s) ''AAAAAA'' = Some room"
       "status room = InProgress" "players_r room = [''h'', ''g'']" "hostId room = ''h''"
       "guestId room = Some ''g''" "map_of (playerToRoom s) ''h'' = Some ''AAAAAA''"
       "map_of (playerToRoom s) ''g'' = Some ''AAAAAA''"
    by blast
  have gd: "guarded opsStarted constructor" by code_simp
  have g: "''g'' = ''h'' \<or> ''g'' = ''g''" and h: "''h'' = ''h'' \<or> ''h'' = ''g''" by simp_all
  from C5_departure_forfeits[OF s(2,3,4,5,6) g, of 9]
       C5_departure_forfeits[OF s(2,3,4,5,6) h, of 9] s gd
  have first: "\<exists>s room. run opsStarted constructor = Some s \<and> guarded opsStarted constructor \<and>
     map_of (rooms s) ''AAAAAA'' = Some room \<and>
     status room = InProgress \<and> players_r room = [''h'', ''g''] \<and> hostId room = ''h'' \<and>
     guestId room = Some ''g'' \<and> map_of (playerToRoom s) ''g'' = Some ''AAAAAA'' \<and>
     map_of (playerToRoom s) ''h'' = Some ''AAAAAA'' \<and>
     fst (removePlayerFromRoom ''g'' ''AAAAAA'' 9 s) = ok \<and>
     handleLeaveRoom ''g'' (Some ''AAAAAA'') 9 s = snd (removePlayerFromRoom ''g'' ''AAAAAA'' 9 s) \<and>
     rooms (handleUserDisconnection ''g'' 9 s)
       = rooms (snd (removePlayerFromRoom ''g'' ''AAAAAA'' 9 s)) \<and>
     (\<exists>room'. map_of (rooms (snd (removePlayerFromRoom ''g'' ''AAAAAA'' 9 s))) ''AAAAAA'' = Some room' \<and>
        status room' = Completed \<and> endTime (gameData room') = Some 9 \<and>
        winner (gameData room') = Some ''h'' \<and> players_r room' = [''h''] \<and>
        hostId room' = ''h'' \<and> guestId room' = None) \<and>
     (\<exists>room'. map_of (rooms (snd (removePlayerFromRoom ''h'' ''AAAAAA'' 9 s))) ''AAAAAA'' = Some room' \<and>
        status room' = Completed \<and> endTime (gameData room') = Some 9 \<and>
        winner (gameData room') = Some ''g'' \<and> players_r room' = [''g''] \<and>
        hostId room' = ''g'' \<and> guestId room' = None)"
    by (intro exI[of _ s] exI[of _ room]) simp
  from solo_state obtain t room2 where
    t: "run opsSoloMatch constructor = Some t" "map_of (rooms t) ''AAAAAA'' = Some room2"
       "status room2 = InProgress" "players_r room2 = [''p'', ''p'']" "hostId room2 = ''p''"
       "guestId room2 = Some ''p''" "map_of (playerToRoom t) ''p'' = Some ''AAAAAA''"
    by blast
  have p: "''p'' = ''p'' \<or> ''p'' = ''p''" by simp
  from C5_departure_forfeits[OF t(2,3,4,5,6) p, of 9] t
  have second: "\<exists>s room. run opsSoloMatch constructor = Some s \<and>
     map_of (rooms s) ''AAAAAA'' = Some room \<and>
     status room = InProgress \<and> players_r room = [''p'', ''p''] \<and> hostId room = ''p'' \<and>
     guestId room = Some ''p'' \<and> map_of (playerToRoom s) ''p'' = Some ''AAAAAA'' \<and>
     fst (removePlayerFromRoom ''p'' ''AAAAAA'' 9 s) = ok \<lparr> roomClosed := True \<rparr> \<and>
     handleLeaveRoom ''p'' (Some ''AAAAAA'') 9 s = snd (removePlayerFromRoom ''p'' ''AAAAAA'' 9 s) \<and>
     map_of (rooms (snd (removePlayerFromRoom ''p'' ''AAAAAA'' 9 s))) ''AAAAAA'' = None \<and>
     map_of (playerToRoom (snd (removePlayerFromRoom ''p'' ''AAAAAA'' 9 s))) ''p'' = None"
    by (intro exI[of _ t] exI[of _ room2]) simp
  from first second show ?thesis by (rule conjI)
qed

text \<open>
  C5 as stated fails for a roster that holds one player twice: the player seated twice
  picks a character, is ready, and the game starts; the room is in progress with two roster
  entries. When the player leaves, the call returns and the room is gone from the registry.
\<close>

theorem C5_same_player_room_counterexample:
  "map_option status (roomAfter opsSoloMatch ''AAAAAA'') = Some InProgress \<and>
   map_option players_r (roomAfter opsSoloMatch ''AAAAAA'') = Some [''p'', ''p''] \<and>
   indexAfter opsSoloMatch ''p'' = Some ''AAAAAA'' \<and>
   roomAfter opsSoloLeave ''AAAAAA'' = None \<and>
   indexAfter opsSoloLeave ''p'' = None \<and>
   map_option id_p (playerAfter opsSoloLeave ''p'') = Some ''p''"
  by code_simp

subsection \<open>A completed room\<close>

lemma generateRoomCode_unused:
  "generateRoomCode rnd rs = Some code \<Longrightarrow> map_of rs code = None"
proof (induction rnd rs rule: generateRoomCode.induct)
  case (1 rnd rs)
  then show ?case
    by (subst (asm) (2) generateRoomCode.simps) (auto simp: Let_def split: if_splits)
qed

lemma status_depart:
  "depart p now room = (room', False) \<Longrightarrow> status room = Completed \<Longrightarrow> status room' = Completed"
  by (auto simp: depart_def settle_def Let_def split: if_splits list.splits)

lemma staysCompleted_refl [simp]: "staysCompleted r s s"
  by (simp add: staysCompleted_def)

lemma staysCompleted_same: "map_of (rooms s') r = map_of (rooms s) r \<Longrightarrow> staysCompleted r s s'"
  by (simp add: staysCompleted_def)

lemma staysCompleted_evolve: "roomsEvolve s s' \<Longrightarrow> staysCompleted r s s'"
  unfolding staysCompleted_def roomsEvolve_def evolves_def by fastforce

lemma staysCompleted_removePlayerFromRoom:
  "staysCompleted r s (snd (removePlayerFromRoom p k now s))"
  unfolding staysCompleted_def rooms_removePlayerFromRoom
  by (auto split: if_splits option.splits intro: status_depart[OF prod.collapse[symmetric, THEN trans]] dest: status_depart)


lemma staysCompleted_leaveAllRooms:
  "staysCompleted r s (snd (leaveAllRooms p now s))"
  using staysCompleted_removePlayerFromRoom
  by (auto simp: leaveAllRooms_def split: option.splits)

lemma staysCompleted_unregisterPlayer:
  "staysCompleted r s (unregisterPlayer p now s)"
  using staysCompleted_leaveAllRooms[of r s p now]
  by (simp add: staysCompleted_def rooms_unregisterPlayer)

lemma staysCompleted_createRoom:
  assumes "createRoom h rd rnd now s = Some (ro, s')" "\<not> replacesRoom (CreateRoom h rd rnd) r"
    "map_of (rooms s) r \<noteq> None"
  shows "staysCompleted r s s'"
proof -
  let ?s1 = "snd (leaveAllRooms h now s)"
  have l: "staysCompleted r s ?s1" by (rule staysCompleted_leaveAllRooms)
  have "map_of (rooms s') r = map_of (rooms ?s1) r"
    using assms generateRoomCode_unused[of rnd "rooms s"]
    by (auto simp: createRoom_def replacesRoom_def Let_def update_conv'
             split: option.splits if_splits)
  with l show ?thesis by (simp add: staysCompleted_def)
qed

lemma staysCompleted_addPlayerToRoom:
  "staysCompleted r s (snd (addPlayerToRoom p k now s))"
proof (cases "k = r")
  case True
  show ?thesis
  proof (cases "map_of (rooms s) r")
    case None
    then show ?thesis by (simp add: staysCompleted_def)
  next
    case (Some room)
    show ?thesis
    proof (cases "status room = Completed")
      case c: True
      then have "snd (addPlayerToRoom p k now s) = s"
        using True Some by (simp add: addPlayerToRoom_def split: option.splits)
      then show ?thesis by simp
    next
      case False
      then show ?thesis using Some by (simp add: staysCompleted_def)
    qed
  qed
next
  case False
  let ?s1 = "snd (leaveAllRooms p now s)"
  have l: "staysCompleted r s ?s1" by (rule staysCompleted_leaveAllRooms)
  have "map_of (rooms (snd (addPlayerToRoom p k now s))) r = map_of (rooms ?s1) r
        \<or> snd (addPlayerToRoom p k now s) = s"
    using False
    by (auto simp: addPlayerToRoom_def Let_def update_conv' split: option.splits if_splits prod.splits)
  with l show ?thesis by (auto simp: staysCompleted_def)
qed

lemma staysCompleted_exec:
  assumes "exec now c s = Some s'" "\<not> replacesRoom c r" "map_of (rooms s) r \<noteq> None"
  shows "staysCompleted r s s'"
proof (cases c)
  case (RegisterPlayer p n)
  then show ?thesis using assms by (auto simp: registerPlayer_def Let_def intro: staysCompleted_same)
next
  case (UnregisterPlayer p)
  then show ?thesis using assms staysCompleted_unregisterPlayer by auto
next
  case (CreateRoom h rd rnd)
  then show ?thesis using assms staysCompleted_createRoom
    by (cases "createRoom h rd rnd now s") auto
next
  case (AddPlayerToRoom p k)
  then show ?thesis using assms staysCompleted_addPlayerToRoom by auto
next
  case (RemovePlayerFromRoom p k)
  then show ?thesis using assms staysCompleted_removePlayerFromRoom by auto
next
  case (LeaveAllRooms p)
  then show ?thesis using assms staysCompleted_leaveAllRooms by auto
next
  case (SetPlayerCharacter p ch)
  then show ?thesis using assms staysCompleted_evolve[OF roomsEvolve_setPlayerCharacter] by auto
next
  case (SetPlayerReady p b)
  then show ?thesis using assms staysCompleted_evolve[OF roomsEvolve_setPlayerReady]
    by (auto split: sum.splits prod.splits)
next
  case (StartGame k)
  then show ?thesis using assms staysCompleted_evolve[OF roomsEvolve_startGame]
    by (auto split: sum.splits prod.splits)
next
  case (ProcessGameAction p a)
  then show ?thesis using assms staysCompleted_evolve[OF roomsEvolve_processGameAction]
    by (auto split: sum.splits prod.splits)
next
  case (CleanupInactive rt pt)
  then show ?thesis using assms staysCompleted_evolve[OF roomsEvolve_cleanupInactive] by auto
qed

text \<open>
  C7, as amended. While the room under code \<open>r\<close> is completed: every
  \<^verbatim>\<open>processGameAction\<close> by a player whose reverse-index entry is \<open>r\<close> fails with
  \<^verbatim>\<open>Game is not in progress\<close> and changes nothing; and every operation that returns, other
  than a \<^verbatim>\<open>createRoom\<close> whose caller supplies the code \<open>r\<close> itself, leaves under \<open>r\<close> either
  no room or a completed room.
\<close>

theorem C7_completed_is_final:
  assumes "map_of (rooms s) r = Some room" "status room = Completed"
  shows "(\<forall>p a. r \<noteq> [] \<and> map_of (playerToRoom s) p = Some r \<longrightarrow>
            processGameAction p a now s = Inr (failure ''Game is not in progress'', s)) \<and>
         (\<forall>c s'. exec now c s = Some s' \<and> \<not> replacesRoom c r \<longrightarrow>
            (\<forall>room'. map_of (rooms s') r = Some room' \<longrightarrow> status room' = Completed))"
proof (rule conjI; intro allI impI)
  fix p a
  assume "r \<noteq> [] \<and> map_of (playerToRoom s) p = Some r"
  then show "processGameAction p a now s = Inr (failure ''Game is not in progress'', s)"
    using assms by (simp add: processGameAction_def)
next
  fix c s' room'
  assume a: "exec now c s = Some s' \<and> \<not> replacesRoom c r" and b: "map_of (rooms s') r = Some room'"
  from a assms(1) have "staysCompleted r s s'"
    by (intro staysCompleted_exec[of now c s s' r]) auto
  with assms b show "status room' = Completed"
    by (auto simp: staysCompleted_def)
qed

text \<open>The sample match after the host has surrendered.\<close>

lemma completed_state:
  "\<exists>s room. run opsCompleted constructor = Some s \<and> map_of (rooms s) ''AAAAAA'' = Some room \<and>
     status room = Completed \<and> winner (gameData room) = Some ''g'' \<and>
     map_of (playerToRoom s) ''g'' = Some ''AAAAAA''"
proof -
  have "map_option status (roomAfter opsCompleted ''AAAAAA'') = Some Completed"
       "map_option winner (map_option gameData (roomAfter opsCompleted ''AAAAAA'')) = Some (Some ''g'')"
       "indexAfter opsCompleted ''g'' = Some ''AAAAAA''"
    by code_simp+
  then show ?thesis
    by (auto simp: roomAfter_def indexAfter_def split: option.splits)
qed

text \<open>The theorem at the completed sample match: the guest's action is refused, and the
  host leaving keeps the room completed.\<close>

theorem C7_completed_is_final_witness:
  "\<exists>s room. run opsCompleted constructor = Some s \<and> map_of (rooms s) ''AAAAAA'' = Some room \<and>
     status room = Completed \<and> map_of (playerToRoom s) ''g'' = Some ''AAAAAA'' \<and>
     processGameAction ''g'' castBolt 9 s = Inr (failure ''Game is not in progress'', s) \<and>
     (\<exists>s' room'. exec 9 (RemovePlayerFromRoom ''h'' ''AAAAAA'') s = Some s' \<and>
        map_of (rooms s') ''AAAAAA'' = Some room' \<and> status room' = Completed)"
proof -
  from completed_state obtain s room where
    s: "run opsCompleted constructor = Some s" "map_of (rooms s) ''AAAAAA'' = Some room"
       "status room = Completed" "map_of (playerToRoom s) ''g'' = Some ''AAAAAA''"
    by blast
  have "roomAfter (opsCompleted @ [(9, RemovePlayerFromRoom ''h'' ''AAAAAA'')]) ''AAAAAA'' \<noteq> None"
    by code_simp
  then obtain s' room' where e: "exec 9 (RemovePlayerFromRoom ''h'' ''AAAAAA'') s = Some s'"
    and r': "map_of (rooms s') ''AAAAAA'' = Some room'"
    using s(1) by (auto simp: roomAfter_def run_snoc split: option.splits)
  have nr: "\<not> replacesRoom (RemovePlayerFromRoom ''h'' ''AAAAAA'') ''AAAAAA''"
    by (simp add: replacesRoom_def)
  from C7_completed_is_final[OF s(2,3), of 9]
  have A: "\<forall>p a. ''AAAAAA'' \<noteq> [] \<and> map_of (playerToRoom s) p = Some ''AAAAAA'' \<longrightarrow>
            processGameAction p a 9 s = Inr (failure ''Game is not in progress'', s)"
    and B: "\<forall>c s'. exec 9 c s = Some s' \<and> \<not> replacesRoom c ''AAAAAA'' \<longrightarrow>
            (\<forall>room'. map_of (rooms s') ''AAAAAA'' = Some room' \<longrightarrow> status room' = Completed)"
    by blast+
  from A s(4) have "processGameAction ''g'' castBolt 9 s = Inr (failure ''Game is not in progress'', s)"
    by simp
  moreover from B e nr r' have "status room' = Completed"
    by blast
  ultimately show ?thesis using s e r' by blast
qed

text \<open>
  C7 as stated fails for \<^verbatim>\<open>createRoom\<close> with a caller-supplied room code: it stores a new
  waiting room under the code of the completed room, without a look at the map. The old
  host, whose reverse-index entry still names the code, then finds the room waiting, later
  in progress, and its action is refused with \<^verbatim>\<open>Not your turn\<close>.
\<close>

theorem C7_replaced_room_counterexample:
  "map_option status (roomAfter opsCompleted ''AAAAAA'') = Some Completed \<and>
   indexAfter opsCompleted ''h'' = Some ''AAAAAA'' \<and>
   map_option status (roomAfter opsReplaced ''AAAAAA'') = Some Waiting \<and>
   map_option status (roomAfter opsRematch ''AAAAAA'') = Some InProgress \<and>
   indexAfter opsRematch ''h'' = Some ''AAAAAA'' \<and>
   map_option error (actionResultAfter opsRematch ''h'' castBolt 18) = Some (Some ''Not your turn'')"
  by code_simp

subsection \<open>The sweep\<close>

text \<open>
  C8, as amended. For a manager whose maps have no key twice, \<^verbatim>\<open>cleanupInactive\<close> removes
  exactly the rooms with \<open>now - lastActivity > roomTimeout\<close> and leaves every other room as
  it is; it deletes the reverse-index entry of every player in the roster of a removed
  room and no other entry; and it removes exactly the players with
  \<open>now - lastActive > playerTimeout\<close> that have no reverse-index entry once the entries of
  the removed rooms' occupants are deleted, leaving every other player as it is. So a
  player whose reverse-index entry survives the room pass is never removed, and an idle
  occupant of a room removed by the same sweep is.
\<close>

theorem C8_sweep:
  assumes "distinct (map fst (rooms s))" "distinct (map fst (players s))"
    and "s' = cleanupInactive roomTimeout playerTimeout now s"
  shows "(\<forall>k. map_of (rooms s') k =
            (case map_of (rooms s) k of
               None \<Rightarrow> None
             | Some room \<Rightarrow> if now - lastActivity room > roomTimeout then None else Some room)) \<and>
         (\<forall>p. map_of (playerToRoom s') p =
            (if (\<exists>k room. map_of (rooms s) k = Some room \<and>
                   now - lastActivity room > roomTimeout \<and> p \<in> set (players_r room))
             then None else map_of (playerToRoom s) p)) \<and>
         (\<forall>p. map_of (players s') p =
            (case map_of (players s) p of
               None \<Rightarrow> None
             | Some pl \<Rightarrow>
                 if now - lastActive pl > playerTimeout \<and> map_of (playerToRoom s') p = None
                 then None else Some pl))"
proof -
  let ?s1 = "sweepRooms now roomTimeout (rooms s) s"
  have s': "s' = sweepPlayers now playerTimeout (players s) ?s1"
    using assms(3) by (simp add: cleanupInactive_def Let_def)
  have mr: "((k, room) \<in> set (rooms s)) = (map_of (rooms s) k = Some room)" for k room
    using assms(1) by (simp add: map_of_eq_Some_iff)
  have mp: "((p, pl) \<in> set (players s)) = (map_of (players s) p = Some pl)" for p pl
    using assms(2) by (simp add: map_of_eq_Some_iff)
  have idx: "playerToRoom s' = playerToRoom ?s1" by (simp add: s')
  have a: "map_of (rooms s') k =
            (case map_of (rooms s) k of
               None \<Rightarrow> None
             | Some room \<Rightarrow> if now - lastActivity room > roomTimeout then None else Some room)" for k
    by (auto simp: s' sweepRooms_rooms mr split: option.splits)
  have b: "map_of (playerToRoom s') p =
            (if (\<exists>k room. map_of (rooms s) k = Some room \<and>
                   now - lastActivity room > roomTimeout \<and> p \<in> set (players_r room))
             then None else map_of (playerToRoom s) p)" for p
    by (simp add: s' sweepRooms_playerToRoom mr)
  have c: "map_of (players s') p =
            (case map_of (players s) p of
               None \<Rightarrow> None
             | Some pl \<Rightarrow>
                 if now - lastActive pl > playerTimeout \<and> map_of (playerToRoom s') p = None
                 then None else Some pl)" for p
    unfolding idx
    by (auto simp: s' sweepPlayers_players mp split: option.splits)
  from a b c show ?thesis by blast
qed

text \<open>Three rooms aged 31, 30 and 29 minutes at the sweep, with a room timeout of 30
  minutes and a player timeout of 10.\<close>

lemma three_rooms_state:
  "\<exists>s ra rb rc pa pb pd. run opsThreeRooms constructor = Some s \<and>
     distinct (map fst (rooms s)) \<and> distinct (map fst (players s)) \<and>
     map_of (rooms s) ''AAAAAA'' = Some ra \<and> lastActivity ra = 0 \<and> players_r ra = [''a''] \<and>
     map_of (rooms s) ''BBBBBB'' = Some rb \<and> lastActivity rb = 60000 \<and> players_r rb = [''b''] \<and>
     map_of (rooms s) ''CCCCCC'' = Some rc \<and> lastActivity rc = 120000 \<and> players_r rc = [''c''] \<and>
     map_of (players s) ''a'' = Some pa \<and> lastActive pa = 0 \<and>
     map_of (players s) ''b'' = Some pb \<and> lastActive pb = 60000 \<and>
     map_of (players s) ''d'' = Some pd \<and> lastActive pd = 120000 \<and>
     map_of (playerToRoom s) ''a'' = Some ''AAAAAA'' \<and>
     map_of (playerToRoom s) ''b'' = Some ''BBBBBB'' \<and>
     map_of (playerToRoom s) ''d'' = None \<and>
     map fst (rooms s) = [''AAAAAA'', ''BBBBBB'', ''CCCCCC'']"
proof -
  have "map_option lastActivity (roomAfter opsThreeRooms ''AAAAAA'') = Some 0"
       "map_option lastActivity (roomAfter opsThreeRooms ''BBBBBB'') = Some 60000"
       "map_option lastActivity (roomAfter opsThreeRooms ''CCCCCC'') = Some 120000"
       "map_option players_r (roomAfter opsThreeRooms ''AAAAAA'') = Some [''a'']"
       "map_option players_r (roomAfter opsThreeRooms ''BBBBBB'') = Some [''b'']"
       "map_option players_r (roomAfter opsThreeRooms ''CCCCCC'') = Some [''c'']"
       "map_option lastActive (playerAfter opsThreeRooms ''a'') = Some 0"
       "map_option lastActive (playerAfter opsThreeRooms ''b'') = Some 60000"
       "map_option lastActive (playerAfter opsThreeRooms ''d'') = Some 120000"
       "indexAfter opsThreeRooms ''a'' = Some ''AAAAAA''"
       "indexAfter opsThreeRooms ''b'' = Some ''BBBBBB''"
       "map_option (map fst) (map_option rooms (run opsThreeRooms constructor))
          = Some [''AAAAAA'', ''BBBBBB'', ''CCCCCC'']"
       "map_option (map fst) (map_option players (run opsThreeRooms constructor))
          = Some [''a'', ''b'', ''c'', ''d'']"
       "map_option (map fst) (map_option playerToRoom (run opsThreeRooms constructor))
          = Some [''a'', ''b'', ''c'']"
    by code_simp+
  then show ?thesis
    by (auto simp: roomAfter_def playerAfter_def indexAfter_def map_of_eq_None_iff split: option.splits)
qed

theorem C8_sweep_witness:
  "\<exists>s s' rb rc pb.
     run opsThreeRooms constructor = Some s \<and>
     distinct (map fst (rooms s)) \<and> distinct (map fst (players s)) \<and>
     s' = cleanupInactive defaultRoomTimeout 600000 1860000 s \<and>
     map_of (rooms s) ''BBBBBB'' = Some rb \<and> 1860000 - lastActivity rb = defaultRoomTimeout \<and>
     map_of (rooms s) ''CCCCCC'' = Some rc \<and> 1860000 - lastActivity rc = 29 * 60 * 1000 \<and>
     map_of (rooms s') ''AAAAAA'' = None \<and>
     map_of (rooms s') ''BBBBBB'' = Some rb \<and>
     map_of (rooms s') ''CCCCCC'' = Some rc \<and>
     map_of (playerToRoom s') ''a'' = None \<and>
     map_of (playerToRoom s') ''b'' = Some ''BBBBBB'' \<and>
     map_of (players s') ''a'' = None \<and>
     map_of (players s) ''b'' = Some pb \<and> 1860000 - lastActive pb > 600000 \<and>
     map_of (players s') ''b'' = Some pb \<and>
     map_of (players s') ''d'' = None"
proof -
  from three_rooms_state obtain s ra rb rc pa pb pd where
    s: "run opsThreeRooms constructor = Some s"
       "distinct (map fst (rooms s))" "distinct (map fst (players s))"
    and ra: "map_of (rooms s) ''AAAAAA'' = Some ra" "lastActivity ra = 0" "players_r ra = [''a'']"
    and rb: "map_of (rooms s) ''BBBBBB'' = Some rb" "lastActivity rb = 60000" "players_r rb = [''b'']"
    and rc: "map_of (rooms s) ''CCCCCC'' = Some rc" "lastActivity rc = 120000" "players_r rc = [''c'']"
    and pa: "map_of (players s) ''a'' = Some pa" "lastActive pa = 0"
    and pb: "map_of (players s) ''b'' = Some pb" "lastActive pb = 60000"
    and pd: "map_of (players s) ''d'' = Some pd" "lastActive pd = 120000"
    and ix: "map_of (playerToRoom s) ''a'' = Some ''AAAAAA''"
            "map_of (playerToRoom s) ''b'' = Some ''BBBBBB''"
            "map_of (playerToRoom s) ''d'' = None"
    and ks: "map fst (rooms s) = [''AAAAAA'', ''BBBBBB'', ''CCCCCC'']"
    by (elim exE conjE) (rule that)
  define s' where "s' = cleanupInactive defaultRoomTimeout 600000 1860000 s"
  have only: "k = ''AAAAAA'' \<or> k = ''BBBBBB'' \<or> k = ''CCCCCC''"
    if "map_of (rooms s) k = Some room" for k room
  proof -
    from that have "k \<in> set (map fst (rooms s))"
      by (metis map_of_eq_None_iff option.distinct(1) set_map)
    then show ?thesis unfolding ks by simp
  qed
  have ea: "\<exists>k room. map_of (rooms s) k = Some room \<and>
              1860000 - lastActivity room > defaultRoomTimeout \<and> ''a'' \<in> set (players_r room)"
    using ra by (intro exI[of _ "''AAAAAA''"] exI[of _ ra]) (simp add: defaultRoomTimeout_def)
  have eb: "\<not> (\<exists>k room. map_of (rooms s) k = Some room \<and>
              1860000 - lastActivity room > defaultRoomTimeout \<and> ''b'' \<in> set (players_r room))"
  proof
    assume "\<exists>k room. map_of (rooms s) k = Some room \<and>
              1860000 - lastActivity room > defaultRoomTimeout \<and> ''b'' \<in> set (players_r room)"
    then obtain k room where kr: "map_of (rooms s) k = Some room"
      "1860000 - lastActivity room > defaultRoomTimeout" "''b'' \<in> set (players_r room)"
      by blast
    from only[OF kr(1)] consider "k = ''AAAAAA''" | "k = ''BBBBBB''" | "k = ''CCCCCC''" by blast
    then show False
      using kr ra rb rc by cases (simp_all add: defaultRoomTimeout_def)
  qed
  note C8 = C8_sweep[OF s(2,3) s'_def]
  from C8 have R: "\<forall>k. map_of (rooms s') k =
            (case map_of (rooms s) k of
               None \<Rightarrow> None
             | Some room \<Rightarrow> if 1860000 - lastActivity room > defaultRoomTimeout then None else Some room)"
    and I: "\<forall>p. map_of (playerToRoom s') p =
            (if (\<exists>k room. map_of (rooms s) k = Some room \<and>
                   1860000 - lastActivity room > defaultRoomTimeout \<and> p \<in> set (players_r room))
             then None else map_of (playerToRoom s) p)"
    and P: "\<forall>p. map_of (players s') p =
            (case map_of (players s) p of
               None \<Rightarrow> None
             | Some pl \<Rightarrow>
                 if 1860000 - lastActive pl > 600000 \<and> map_of (playerToRoom s') p = None
                 then None else Some pl)"
    by blast+
  have r1: "map_of (rooms s') ''AAAAAA'' = None" "map_of (rooms s') ''BBBBBB'' = Some rb"
           "map_of (rooms s') ''CCCCCC'' = Some rc"
    using R ra rb rc by (simp_all add: defaultRoomTimeout_def)
  have i1: "map_of (playerToRoom s') ''a'' = None" "map_of (playerToRoom s') ''b'' = Some ''BBBBBB''"
    using I ea eb ix by simp_all
  have i2: "map_of (playerToRoom s') ''d'' = None"
    using I ix by simp
  have p1: "map_of (players s') ''a'' = None" "map_of (players s') ''b'' = Some pb"
           "map_of (players s') ''d'' = None"
    using P pa pb pd i1 i2 by simp_all
  show ?thesis
    using s s'_def rb rc pb r1 i1 p1
    by (intro exI[of _ s] exI[of _ s'] exI[of _ rb] exI[of _ rc] exI[of _ pb])
       (simp add: defaultRoomTimeout_def)
qed

text \<open>
  C8 as stated fails where it says that a player occupying a room is never removed: the
  player \<open>a\<close> is in the roster of its room and in the reverse index when the sweep starts,
  61 minutes after its last activity; the sweep removes the room and then the player.
\<close>

theorem C8_occupant_removed_counterexample:
  "indexAfter opsThreeRooms ''a'' = Some ''AAAAAA'' \<and>
   map_option players_r (roomAfter opsThreeRooms ''AAAAAA'') = Some [''a''] \<and>
   map_option id_p (playerAfter opsThreeRooms ''a'') = Some ''a'' \<and>
   playerAfter opsLateSweep ''a'' = None \<and>
   map_option id_p (playerAfter opsLateSweep ''b'') = Some ''b''"
  by code_simp

subsection \<open>Where the code departs from the specification\<close>

text \<open>
  The extent of the failures that do leave the state as it was: a failed join, a failed
  removal, and every failed action other than the two failures of an ability use.
\<close>

lemma addPlayerToRoom_failure:
  "\<not> success (fst (addPlayerToRoom p r now s)) \<Longrightarrow> snd (addPlayerToRoom p r now s) = s"
  by (auto simp: addPlayerToRoom_def Let_def ok_def split: option.splits if_splits prod.splits)

lemma removePlayerFromRoom_failure:
  "\<not> success (fst (removePlayerFromRoom p r now s)) \<Longrightarrow>
   snd (removePlayerFromRoom p r now s) = s"
  by (auto simp: removePlayerFromRoom_def Let_def ok_def split: option.splits if_splits prod.splits)

lemma finishAction_result:
  "finishAction ai ti r now res0 s1 = Inr (res, s') \<Longrightarrow>
   success res = success res0 \<and> error res = error res0"
  by (auto simp: finishAction_def Let_def split: option.splits if_splits)

lemma processAbilityUse_result:
  "processAbilityUse ai ap ti tp a r s = (res0, s1) \<Longrightarrow>
   success res0 \<or> error res0 = Some ''Ability not found'' \<or> error res0 = Some ''Not enough mana''"
  by (auto simp: processAbilityUse_def Let_def ok_def failure_def split: option.splits if_splits)

lemma processSurrender_result:
  "processSurrender ai ap r s = (res0, s1) \<Longrightarrow> success res0"
  by (auto simp: processSurrender_def Let_def ok_def)

lemma processGameAction_failure:
  assumes "processGameAction p a now s = Inr (res, s')" "\<not> success res"
    and "error res \<noteq> Some ''Ability not found''" "error res \<noteq> Some ''Not enough mana''"
  shows "s' = s"
proof -
  have ab: False
    if "processAbilityUse q ap ti tp a r s = (res0, s1)"
       "finishAction q ti r now res0 s1 = Inr (res, s')"
    for q ap ti tp r res0 s1
    using finishAction_result[OF that(2)] processAbilityUse_result[OF that(1)] assms(2,3,4)
    by auto
  have su: False
    if "processSurrender q ap r s = (res0, s1)"
       "finishAction q ti r now res0 s1 = Inr (res, s')"
    for q ap ti r res0 s1
    using finishAction_result[OF that(2)] processSurrender_result[OF that(1)] assms(2) by auto
  show ?thesis
    using assms(1) unfolding processGameAction_def
    by (auto split: option.splits if_splits prod.splits dest: ab su)
qed

text \<open>
  The chat handler, with \<^verbatim>\<open>gameState\<close> bound as it is in the handler's module: a missing
  payload faults on the read of its room code, a message that is not a string or is blank
  is ignored, and every other message faults.
\<close>

lemma handleChatMessage_cases:
  "handleChatMessage moduleGameState p data now =
     (case data of
        None \<Rightarrow> Inl TypeError
      | Some d \<Rightarrow>
          (case message_m d of
             JString m \<Rightarrow> if trim m = [] then Inr Ignored else Inl ReferenceError
           | _ \<Rightarrow> Inr Ignored))"
  by (auto simp: handleChatMessage_def moduleGameState_def trim_def
      split: option.splits jsValue.splits)

text \<open>
  C1 (failure leaves the state unchanged) does not hold of the code. In the started sample
  match the host names an ability its character does not have: the call returns the
  failure \<^verbatim>\<open>Ability not found\<close>, and the turn counter has gone from 1 to 2 and the turn
  from the host to the guest.
\<close>

theorem C1_failed_ability_passes_turn:
  "map_option success (actionResultAfter opsStarted ''h'' castUnknown 8) = Some False \<and>
   map_option error (actionResultAfter opsStarted ''h'' castUnknown 8)
     = Some (Some ''Ability not found'') \<and>
   map_option turnCount (map_option gameData (roomAfter opsStarted ''AAAAAA'')) = Some 1 \<and>
   map_option currentTurn (map_option gameData (roomAfter opsStarted ''AAAAAA''))
     = Some (Some ''h'') \<and>
   map_option turnCount (map_option gameData (roomAfter opsBadCast ''AAAAAA'')) = Some 2 \<and>
   map_option currentTurn (map_option gameData (roomAfter opsBadCast ''AAAAAA''))
     = Some (Some ''g'')"
  by code_simp

text \<open>
  C3 (the reverse index agrees with the rosters) does not hold of the code. A player who
  hosts a room alone and joins that same room is first removed from it, which deletes the
  room, and is then pushed onto the roster of the deleted room object: the reverse index
  names a room code that the registry does not hold.
\<close>

theorem C3_self_join_orphans_index:
  "map_option players_r (roomAfter opsOwnRoom ''AAAAAA'') = Some [''p''] \<and>
   indexAfter opsOwnRoom ''p'' = Some ''AAAAAA'' \<and>
   indexAfter opsSelfJoin ''p'' = Some ''AAAAAA'' \<and>
   roomAfter opsSelfJoin ''AAAAAA'' = None \<and>
   map_option id_p (playerAfter opsSelfJoin ''p'') = Some ''p''"
  by code_simp

text \<open>
  C9 (the chat handler never faults) does not hold of the code. A message that is not
  blank reaches the read of \<^verbatim>\<open>gameState\<close>, which is unbound in the handler's module.
\<close>

theorem C9_chat_message_faults:
  "handleChatMessage moduleGameState ''h''
     (Some \<lparr> roomId_m = Some ''AAAAAA'', message_m = JString ''hi'' \<rparr>) 9
   = Inl ReferenceError"
  by code_simp

end
